theory Spec2Isabelle
  imports Complex_Main "HOL-Library.Word" "HOL-Library.Log_Nat"
begin

section \<open>The price calculator of gocommerce (calculator/calculator.go)\<close>

text \<open>
  The calculator is one pure function, \<open>CalculatePrice\<close>, with two helpers:
  \<open>Tax.AppliesTo\<close> and \<open>rint\<close>. Money is \<open>uint64\<close>, so every sum, product
  and difference below is taken in \<open>64 word\<close> and wraps around. The percentages are applied
  in \<open>float64\<close>; the model of that arithmetic comes first.
\<close>

type_synonym uint64 = "64 word"

subsection \<open>float64 arithmetic\<close>

text \<open>
  A finite \<open>float64\<close> is a rational number. Every float the calculator builds comes from
  a \<open>uint64\<close> by conversion, addition of 100, one multiplication and one division (in
  either order), so it is 0 or lies between \<open>2^-65\<close> and \<open>2^129\<close>: no infinity, no NaN,
  no subnormal number and no overflow can arise, and the divisor \<open>100 + float64(percentage)\<close>
  is at least 100. In that range an IEEE 754 operation returns the exact result rounded to
  the nearest number with a 53-bit significand, ties going to the even significand. That is
  \<open>round_float64\<close>.
\<close>

text \<open>Nearest integer, ties to the even one: the rounding of a significand.\<close>

definition nearest_even :: "rat \<Rightarrow> int" where
  "nearest_even x =
     (let v = \<lfloor>x\<rfloor>; f = x - of_int v
      in if f < 1 / 2 then v
         else if 1 / 2 < f then v + 1
         else if even v then v else v + 1)"

definition pow2 :: "int \<Rightarrow> rat" where
  "pow2 e = (if 0 \<le> e then 2 ^ nat e else 1 / 2 ^ nat (- e))"

text \<open>The binary exponent of a positive rational: \<open>pow2 (ilog2 x) \<le> x < pow2 (ilog2 x + 1)\<close>.\<close>

definition ilog2 :: "rat \<Rightarrow> int" where
  "ilog2 x = (if 1 \<le> x then bitlen \<lfloor>x\<rfloor> - 1 else - bitlen (\<lceil>1 / x\<rceil> - 1))"

definition round_float64 :: "rat \<Rightarrow> rat" where
  "round_float64 x =
     (if x = 0 then 0
      else let e = ilog2 \<bar>x\<bar> - 52
           in of_int (nearest_even (x / pow2 e)) * pow2 e)"

text \<open>\<open>float64(n)\<close> for a \<open>uint64\<close>, and the three operations the calculator uses.\<close>

definition float64 :: "uint64 \<Rightarrow> rat" where
  "float64 n = round_float64 (of_int (uint n))"

definition fadd :: "rat \<Rightarrow> rat \<Rightarrow> rat" where
  "fadd a b = round_float64 (a + b)"

definition fmul :: "rat \<Rightarrow> rat \<Rightarrow> rat" where
  "fmul a b = round_float64 (a * b)"

definition fdiv :: "rat \<Rightarrow> rat \<Rightarrow> rat" where
  "fdiv a b = round_float64 (a / b)"

text \<open>
  \<open>math.Modf\<close> splits a float into its integral part (truncated towards zero) and the
  remaining fraction, which has the sign of the argument. Both are exact.
\<close>

definition Modf :: "rat \<Rightarrow> rat \<times> rat" where
  "Modf x = (let v = (if x < 0 then - of_int \<lfloor>- x\<rfloor> else of_int \<lfloor>x\<rfloor>) in (v, x - v))"

text \<open>
  \<open>uint64(v)\<close> for a float truncates towards zero. Where the truncated value is not a
  \<open>uint64\<close> (it is negative, or \<open>2^64\<close> and more) the Go specification leaves the result to
  the implementation; the model takes that part as a parameter \<open>oor\<close>, the conversion of
  the out-of-range floats, and every theorem holds for each choice of it.
\<close>

definition uint64_of_float :: "(rat \<Rightarrow> uint64) \<Rightarrow> rat \<Rightarrow> uint64" where
  "uint64_of_float oor v =
     (if 0 \<le> v \<and> v < 2 ^ 64 then word_of_int \<lfloor>v\<rfloor>
      else if - 1 < v \<and> v < 0 then 0
      else oor v)"

subsection \<open>rint\<close>

definition rint :: "(rat \<Rightarrow> uint64) \<Rightarrow> rat \<Rightarrow> uint64" where
  "rint oor x =
     (let (v, frac) = Modf x
      in if 0 < x then
           (if 1 / 2 < frac \<or> (frac = 1 / 2 \<and> uint64_of_float oor v mod 2 \<noteq> 0)
            then uint64_of_float oor (fadd v 1)
            else uint64_of_float oor v)
         else
           (if frac < - (1 / 2) \<or> (frac = - (1 / 2) \<and> uint64_of_float oor v mod 2 \<noteq> 0)
            then uint64_of_float oor (fadd v (- 1))
            else uint64_of_float oor v))"

subsection \<open>Data\<close>

record ItemPrice =
  Quantity :: uint64
  Subtotal :: uint64
  Discount :: uint64
  Taxes :: uint64
  Total :: uint64

record Price =
  Items :: "ItemPrice list"
  Subtotal :: uint64
  Discount :: uint64
  Taxes :: uint64
  Total :: uint64

text \<open>A nil slice and an empty one are both \<open>[]\<close>: the code only asks for their length.\<close>

record Tax =
  Percentage :: uint64
  ProductTypes :: "string list"
  Countries :: "string list"

text \<open>\<open>Settings.Taxes\<close> is a \<open>[]*Tax\<close>: an entry may be the nil pointer, \<open>None\<close>.\<close>

record Settings =
  PricesIncludeTaxes :: bool
  Taxes :: "Tax option list"

record taxAmount =
  price :: uint64
  percentage :: uint64

text \<open>
  \<open>Item\<close> and \<open>Coupon\<close> are interfaces; their implementations are not part of the
  calculator. An item is modelled by what its five methods return, a coupon likewise, and
  the methods are taken to be getters: they return the same value at every call and do
  nothing else.
\<close>

datatype Item =
  Item (PriceInLowestUnit: uint64) (ProductType: string) (FixedVAT: uint64)
       (TaxableItems: "Item list") (GetQuantity: uint64)

record Coupon =
  ValidForType :: "string \<Rightarrow> bool"
  ValidForPrice :: "string \<Rightarrow> uint64 \<Rightarrow> bool"
  PercentageDiscount :: uint64
  FixedDiscount :: uint64

datatype panic = NilPointerDereference

subsection \<open>Tax.AppliesTo\<close>

text \<open>The two inner loops of \<open>AppliesTo\<close>: search a slice for a string, stop at the first hit.\<close>

fun contains :: "string list \<Rightarrow> string \<Rightarrow> bool" where
  "contains [] s = False"
| "contains (t # ts) s = (if t = s then True else contains ts s)"

definition AppliesTo :: "Tax \<Rightarrow> string \<Rightarrow> string \<Rightarrow> bool" where
  "AppliesTo t country productType =
     (let applies = (if ProductTypes t \<noteq> [] then contains (ProductTypes t) productType else True)
      in if \<not> applies then False
         else if Countries t \<noteq> [] then contains (Countries t) country
         else applies)"

subsection \<open>CalculatePrice\<close>

text \<open>
  The loop \<open>for _, t := range settings.Taxes { if t.AppliesTo(...) { ...; break } }\<close>, which
  the code writes twice: the first rule that applies, if there is one. Calling \<open>AppliesTo\<close>
  on a nil rule reads a field through the nil pointer and panics.
\<close>

fun firstApplicable :: "Tax option list \<Rightarrow> string \<Rightarrow> string \<Rightarrow> panic + Tax option" where
  "firstApplicable [] country productType = Inr None"
| "firstApplicable (None # ts) country productType = Inl NilPointerDereference"
| "firstApplicable (Some t # ts) country productType =
     (if AppliesTo t country productType then Inr (Some t)
      else firstApplicable ts country productType)"

text \<open>The loop over \<open>item.TaxableItems()\<close>: one amount for each sub-item.\<close>

fun subItemAmounts :: "Tax option list \<Rightarrow> string \<Rightarrow> Item list \<Rightarrow> panic + taxAmount list" where
  "subItemAmounts taxes country [] = Inr []"
| "subItemAmounts taxes country (item # items) =
     (case firstApplicable taxes country (ProductType item) of
        Inl e \<Rightarrow> Inl e
      | Inr r \<Rightarrow>
          (let amount = \<lparr>price = PriceInLowestUnit item,
                         percentage = (case r of None \<Rightarrow> 0 | Some t \<Rightarrow> Percentage t)\<rparr>
           in case subItemAmounts taxes country items of
                Inl e \<Rightarrow> Inl e
              | Inr amounts \<Rightarrow> Inr (amount # amounts)))"

text \<open>The three-way choice that fills \<open>taxAmounts\<close> for one item.\<close>

definition taxAmounts :: "Settings option \<Rightarrow> string \<Rightarrow> Item \<Rightarrow> panic + taxAmount list" where
  "taxAmounts settings country item =
     (if FixedVAT item \<noteq> 0 then
        Inr [\<lparr>price = PriceInLowestUnit item, percentage = FixedVAT item\<rparr>]
      else case settings of
        None \<Rightarrow> Inr []
      | Some s \<Rightarrow>
          if TaxableItems item \<noteq> [] then
            subItemAmounts (Settings.Taxes s) country (TaxableItems item)
          else
            (case firstApplicable (Settings.Taxes s) country (ProductType item) of
               Inl e \<Rightarrow> Inl e
             | Inr None \<Rightarrow> Inr []
             | Inr (Some t) \<Rightarrow>
                 Inr [\<lparr>price = PriceInLowestUnit item, percentage = Percentage t\<rparr>]))"

text \<open>
  The two float expressions applied to a tax amount: the price without the tax that it
  includes, \<open>rint(float64(price) / (100 + float64(percentage)) * 100)\<close>, and the share
  \<open>rint(float64(amount) * float64(percentage) / 100)\<close>, which the code also uses for the
  discount.
\<close>

definition exclusivePrice :: "(rat \<Rightarrow> uint64) \<Rightarrow> uint64 \<Rightarrow> uint64 \<Rightarrow> uint64" where
  "exclusivePrice oor p pct = rint oor (fmul (fdiv (float64 p) (fadd 100 (float64 pct))) 100)"

definition percentOf :: "(rat \<Rightarrow> uint64) \<Rightarrow> uint64 \<Rightarrow> uint64 \<Rightarrow> uint64" where
  "percentOf oor amount pct = rint oor (fdiv (fmul (float64 amount) (float64 pct)) 100)"

text \<open>The loop \<open>for _, tax := range taxAmounts\<close>, updating the item's price; \<open>incl\<close> is
  the variable \<open>includeTaxes\<close>.\<close>

fun applyTaxes :: "(rat \<Rightarrow> uint64) \<Rightarrow> bool \<Rightarrow> taxAmount list \<Rightarrow> ItemPrice \<Rightarrow> ItemPrice" where
  "applyTaxes oor incl [] itemPrice = itemPrice"
| "applyTaxes oor incl (tax # taxes) itemPrice =
     (if incl then
        (let p = exclusivePrice oor (price tax) (percentage tax);
             itemPrice1 = itemPrice\<lparr>ItemPrice.Subtotal := ItemPrice.Subtotal itemPrice + p\<rparr>;
             itemPrice2 = itemPrice1\<lparr>ItemPrice.Taxes :=
                            ItemPrice.Taxes itemPrice1 + percentOf oor p (percentage tax)\<rparr>
         in applyTaxes oor incl taxes itemPrice2)
      else
        applyTaxes oor incl taxes
          (itemPrice\<lparr>ItemPrice.Taxes :=
             ItemPrice.Taxes itemPrice + percentOf oor (price tax) (percentage tax)\<rparr>))"

text \<open>The variable \<open>includeTaxes\<close>: \<open>settings != nil && settings.PricesIncludeTaxes\<close>.\<close>

definition includeTaxes :: "Settings option \<Rightarrow> bool" where
  "includeTaxes settings = (case settings of None \<Rightarrow> False | Some s \<Rightarrow> PricesIncludeTaxes s)"

text \<open>The body of the loop over the items, up to \<open>itemPrice.Total = ...\<close>.\<close>

definition priceItem ::
  "(rat \<Rightarrow> uint64) \<Rightarrow> Settings option \<Rightarrow> string \<Rightarrow> Coupon option \<Rightarrow> Item \<Rightarrow> panic + ItemPrice" where
  "priceItem oor settings country coupon item =
     (let itemPrice0 = \<lparr>Quantity = GetQuantity item, Subtotal = PriceInLowestUnit item,
                        Discount = 0, Taxes = 0, Total = 0\<rparr>
      in case taxAmounts settings country item of
           Inl e \<Rightarrow> Inl e
         | Inr amounts \<Rightarrow>
             (let itemPrice1 =
                    (if amounts \<noteq> [] then
                       applyTaxes oor (includeTaxes settings) amounts
                         (if includeTaxes settings then itemPrice0\<lparr>ItemPrice.Subtotal := 0\<rparr>
                          else itemPrice0)
                     else itemPrice0);
                  itemPrice2 =
                    (case coupon of
                       None \<Rightarrow> itemPrice1
                     | Some c \<Rightarrow>
                         if ValidForType c (ProductType item) then
                           (let amountToDiscount =
                                  (if includeTaxes settings
                                   then ItemPrice.Subtotal itemPrice1 + ItemPrice.Taxes itemPrice1
                                   else ItemPrice.Subtotal itemPrice1)
                            in itemPrice1\<lparr>ItemPrice.Discount :=
                                 percentOf oor amountToDiscount (PercentageDiscount c)\<rparr>)
                         else itemPrice1)
              in Inr (itemPrice2\<lparr>ItemPrice.Total :=
                        ItemPrice.Subtotal itemPrice2 - ItemPrice.Discount itemPrice2
                          + ItemPrice.Taxes itemPrice2\<rparr>)))"

text \<open>The loop over the items, with the order's price \<open>pr\<close> (the variable \<open>price\<close> of the code) as its state.\<close>

fun priceItems ::
  "(rat \<Rightarrow> uint64) \<Rightarrow> Settings option \<Rightarrow> string \<Rightarrow> Coupon option \<Rightarrow> Item list \<Rightarrow> Price
     \<Rightarrow> panic + Price" where
  "priceItems oor settings country coupon [] pr = Inr pr"
| "priceItems oor settings country coupon (item # items) pr =
     (case priceItem oor settings country coupon item of
        Inl e \<Rightarrow> Inl e
      | Inr itemPrice \<Rightarrow>
          priceItems oor settings country coupon items
            (pr\<lparr>Items := Items pr @ [itemPrice],
               Price.Subtotal := Price.Subtotal pr
                 + ItemPrice.Subtotal itemPrice * Quantity itemPrice,
               Price.Discount := Price.Discount pr
                 + ItemPrice.Discount itemPrice * Quantity itemPrice,
               Price.Taxes := Price.Taxes pr
                 + ItemPrice.Taxes itemPrice * Quantity itemPrice,
               Price.Total := Price.Total pr
                 + ItemPrice.Total itemPrice * Quantity itemPrice\<rparr>))"

definition CalculatePrice ::
  "(rat \<Rightarrow> uint64) \<Rightarrow> Settings option \<Rightarrow> string \<Rightarrow> string \<Rightarrow> Coupon option \<Rightarrow> Item list
     \<Rightarrow> panic + Price" where
  "CalculatePrice oor settings country currency coupon items =
     (case priceItems oor settings country coupon items
             \<lparr>Items = [], Subtotal = 0, Discount = 0, Taxes = 0, Total = 0\<rparr> of
        Inl e \<Rightarrow> Inl e
      | Inr pr \<Rightarrow>
          Inr (pr\<lparr>Price.Total :=
                 Price.Subtotal pr - Price.Discount pr + Price.Taxes pr\<rparr>))"

subsection \<open>Inputs on which the calculator returns\<close>

text \<open>
  The only panic of the calculator is the call of \<open>AppliesTo\<close> on a nil rule. Settings
  without a nil rule, and absent settings, are the inputs the specification speaks about.
\<close>

definition rulesPresent :: "Settings option \<Rightarrow> bool" where
  "rulesPresent settings =
     (case settings of None \<Rightarrow> True | Some s \<Rightarrow> None \<notin> set (Settings.Taxes s))"

subsection \<open>The specification's notions\<close>

text \<open>
  The matching rule in the words of the specification (4.1): a rule matches if its set of
  product types is empty or contains the product type, and its set of countries is empty or
  contains the country.
\<close>

definition ruleMatches :: "Tax \<Rightarrow> string \<Rightarrow> string \<Rightarrow> bool" where
  "ruleMatches t country productType =
     ((ProductTypes t = [] \<or> productType \<in> set (ProductTypes t)) \<and>
      (Countries t = [] \<or> country \<in> set (Countries t)))"

text \<open>
  The tax amount of a sub-item in the words of the specification (4.2): its own price, with
  the percentage of the first rule matching its product type, or 0 if none matches.
\<close>

definition subItemRate :: "Tax list \<Rightarrow> string \<Rightarrow> Item \<Rightarrow> uint64" where
  "subItemRate rules country sub =
     (case find (\<lambda>t. ruleMatches t country (ProductType sub)) rules of
        None \<Rightarrow> 0
      | Some t \<Rightarrow> Percentage t)"

definition subItemAmount :: "Tax list \<Rightarrow> string \<Rightarrow> Item \<Rightarrow> taxAmount" where
  "subItemAmount rules country sub =
     \<lparr>price = PriceInLowestUnit sub, percentage = subItemRate rules country sub\<rparr>"

text \<open>
  The rounding of the specification (4.3), on rationals: split \<open>x\<close> into its integral part
  \<open>v\<close> and the remainder \<open>frac\<close>; a positive \<open>x\<close> is rounded up if
  \<open>frac > 0.5\<close>, or if \<open>frac = 0.5\<close> and \<open>v\<close> is odd; a negative one likewise,
  mirrored.
\<close>

definition spec_round :: "rat \<Rightarrow> int" where
  "spec_round x =
     (let v = (if x < 0 then - \<lfloor>- x\<rfloor> else \<lfloor>x\<rfloor>); frac = x - of_int v
      in if 0 < x then (if 1 / 2 < frac \<or> (frac = 1 / 2 \<and> odd v) then v + 1 else v)
         else (if frac < - (1 / 2) \<or> (frac = - (1 / 2) \<and> odd v) then v - 1 else v))"

text \<open>
  The amounts of the specification (4.2): \<open>round(amount * percentage / 100)\<close>, the price
  without the tax it includes, \<open>round(basis * 100 / (100 + percentage))\<close>, and the amount
  a coupon's percentage is taken of.
\<close>

definition percentShare :: "int \<Rightarrow> int \<Rightarrow> int" where
  "percentShare amount pct = spec_round (of_int (amount * pct) / 100)"

definition backedOut :: "taxAmount \<Rightarrow> int" where
  "backedOut ta =
     spec_round (of_int (uint (price ta) * 100) / of_int (100 + uint (percentage ta)))"

definition discountBase :: "Settings option \<Rightarrow> ItemPrice \<Rightarrow> uint64" where
  "discountBase settings ip =
     (if includeTaxes settings then ItemPrice.Subtotal ip + ItemPrice.Taxes ip
      else ItemPrice.Subtotal ip)"

subsection \<open>Example inputs\<close>

definition rule20 :: Tax where
  "rule20 = \<lparr>Percentage = 20, ProductTypes = [''book''], Countries = []\<rparr>"

definition exclusive20 :: Settings where
  "exclusive20 = \<lparr>PricesIncludeTaxes = False, Taxes = [Some rule20]\<rparr>"

definition inclusive20 :: Settings where
  "inclusive20 = \<lparr>PricesIncludeTaxes = True, Taxes = [Some rule20]\<rparr>"

definition coupon10 :: Coupon where
  "coupon10 = \<lparr>ValidForType = (\<lambda>t. t = ''book''), ValidForPrice = (\<lambda>c a. True),
                PercentageDiscount = 10, FixedDiscount = 0\<rparr>"

definition coupon300 :: Coupon where
  "coupon300 = \<lparr>ValidForType = (\<lambda>t. t = ''book''), ValidForPrice = (\<lambda>c a. True),
                PercentageDiscount = 300, FixedDiscount = 0\<rparr>"

definition ruleBooksDE :: Tax where
  "ruleBooksDE = \<lparr>Percentage = 7, ProductTypes = [''book''], Countries = [''DE'']\<rparr>"

definition ruleAny19 :: Tax where
  "ruleAny19 = \<lparr>Percentage = 19, ProductTypes = [], Countries = []\<rparr>"

definition ruleBooks5 :: Tax where
  "ruleBooks5 = \<lparr>Percentage = 5, ProductTypes = [''book''], Countries = []\<rparr>"

definition ruleEbooks19 :: Tax where
  "ruleEbooks19 = \<lparr>Percentage = 19, ProductTypes = [''ebook''], Countries = []\<rparr>"

definition bookBundle :: Item where
  "bookBundle = Item 100 ''bundle'' 0 [Item 50 ''book'' 0 [] 1, Item 50 ''ebook'' 0 [] 1] 1"

definition coupon20 :: Coupon where
  "coupon20 = \<lparr>ValidForType = (\<lambda>t. t = ''book''), ValidForPrice = (\<lambda>c a. True),
                PercentageDiscount = 20, FixedDiscount = 0\<rparr>"

section \<open>float64 rounding\<close>

subsection \<open>The nearest integer\<close>

lemma nearest_even_bounds:
  "of_int (nearest_even x) - 1 / 2 \<le> x \<and> x \<le> of_int (nearest_even x) + 1 / 2"
proof -
  define v where "v = \<lfloor>x\<rfloor>"
  have v: "of_int v \<le> x" "x < of_int v + 1" unfolding v_def by linarith+
  have "nearest_even x = v \<and> x - of_int v \<le> 1 / 2 \<or>
        nearest_even x = v + 1 \<and> 1 / 2 \<le> x - of_int v"
    unfolding nearest_even_def Let_def v_def [symmetric] by auto
  then show ?thesis
  proof
    assume "nearest_even x = v \<and> x - of_int v \<le> 1 / 2"
    with v show ?thesis by simp
  next
    assume "nearest_even x = v + 1 \<and> 1 / 2 \<le> x - of_int v"
    with v show ?thesis by simp
  qed
qed

lemma nearest_even_unique:
  assumes "of_int k - 1 / 2 < x" and "x < of_int k + 1 / 2"
  shows "nearest_even x = k"
proof (cases "of_int k \<le> x")
  case True
  with assms have "\<lfloor>x\<rfloor> = k" by linarith
  with assms show ?thesis by (simp add: nearest_even_def Let_def)
next
  case False
  with assms have "\<lfloor>x\<rfloor> = k - 1" by linarith
  with assms False show ?thesis by (simp add: nearest_even_def Let_def)
qed

lemma nearest_even_of_int [simp]: "nearest_even (of_int k) = k"
  by (simp add: nearest_even_def)

lemma nearest_even_nonneg: "0 \<le> x \<Longrightarrow> 0 \<le> nearest_even x"
  by (simp add: nearest_even_def Let_def)

lemma spec_round_nonneg: "0 \<le> x \<Longrightarrow> spec_round x = nearest_even x"
  by (auto simp: spec_round_def nearest_even_def Let_def)

subsection \<open>Powers of two and the binary exponent\<close>

lemma pow2_powi: "pow2 e = 2 powi e"
  by (simp add: pow2_def power_int_def inverse_eq_divide power_one_over)

lemma pow2_pos [simp]: "0 < pow2 e"
  by (simp add: pow2_powi)

lemma pow2_nonzero [simp]: "pow2 e \<noteq> 0"
  by (simp add: pow2_powi)

lemma pow2_nonneg [simp]: "0 \<le> pow2 e"
  using pow2_pos [of e] by (simp only: less_imp_le)

lemma pow2_add: "pow2 (a + b) = pow2 a * pow2 b"
  by (simp add: pow2_powi power_int_add)

lemma pow2_nat: "0 \<le> e \<Longrightarrow> pow2 e = 2 ^ nat e"
  by (simp add: pow2_def)

lemma pow2_neg: "pow2 (- int n) = 1 / 2 ^ n"
  by (cases "n = 0") (simp_all add: pow2_def)

lemma pow2_mono: "a \<le> b \<Longrightarrow> pow2 a \<le> pow2 b"
  by (simp add: pow2_powi power_int_increasing)

lemma pow2_less_imp: "pow2 a < pow2 b \<Longrightarrow> a < b"
  using pow2_mono [of b a] by (cases "a < b") auto

lemma pow_le_rat: "2 ^ k \<le> (n::int) \<Longrightarrow> (2::rat) ^ k \<le> of_int n"
  using of_int_le_iff [where ?'a = rat, of "2 ^ k" n] by simp

lemma less_pow_rat: "(n::int) < 2 ^ k \<Longrightarrow> (of_int n :: rat) + 1 \<le> 2 ^ k"
  using of_int_le_iff [where ?'a = rat, of "n + 1" "2 ^ k"] by simp

lemma bitlen_ge_1: "0 < n \<Longrightarrow> 1 \<le> bitlen n"
  using bitlen_eq_zero_iff [of n] bitlen_nonneg [of n] by linarith

lemma ilog2_bounds:
  assumes "0 < x"
  shows "pow2 (ilog2 x) \<le> x" and "x < pow2 (ilog2 x + 1)"
proof -
  have "pow2 (ilog2 x) \<le> x \<and> x < pow2 (ilog2 x + 1)"
  proof (cases "1 \<le> x")
    case True
    define n where "n = \<lfloor>x\<rfloor>"
    have n: "of_int n \<le> x" "x < of_int n + 1" unfolding n_def by linarith+
    have pos: "0 < n" using True unfolding n_def by linarith
    note b = bitlen_bounds [OF pos] and b1 = bitlen_ge_1 [OF pos]
    have il: "ilog2 x = bitlen n - 1" using True by (simp add: ilog2_def n_def)
    have "pow2 (bitlen n - 1) = 2 ^ nat (bitlen n - 1)" using b1 by (simp add: pow2_nat)
    also have "\<dots> \<le> of_int n" using b by (simp add: pow_le_rat)
    finally have lo: "pow2 (bitlen n - 1) \<le> x" using n(1) by linarith
    have "of_int n + 1 \<le> (2::rat) ^ nat (bitlen n)" using b by (simp add: less_pow_rat)
    also have "\<dots> = pow2 (bitlen n)" using b1 by (simp add: pow2_nat)
    finally have "x < pow2 (bitlen n)" using n(2) by simp
    with lo il show ?thesis by simp
  next
    case False
    define y where "y = 1 / x"
    define m where "m = \<lceil>y\<rceil> - 1"
    from False assms have y1: "1 < y" by (simp add: y_def)
    have m: "of_int m < y" "y \<le> of_int m + 1" unfolding m_def by linarith+
    from y1 m(2) have pos: "0 < m" by linarith
    note b = bitlen_bounds [OF pos] and b1 = bitlen_ge_1 [OF pos]
    have il: "ilog2 x = - bitlen m" using False by (simp add: ilog2_def m_def y_def)
    have xy: "x = 1 / y" using assms by (simp add: y_def)
    have "of_int m + 1 \<le> (2::rat) ^ nat (bitlen m)" using b by (simp add: less_pow_rat)
    with m(2) have yle: "y \<le> 2 ^ nat (bitlen m)" by linarith
    have "pow2 (- bitlen m) = 1 / 2 ^ nat (bitlen m)"
      using b1 by (simp add: pow2_def)
    also have "\<dots> \<le> 1 / y" using yle y1 by (simp add: frac_le)
    finally have lo: "pow2 (- bitlen m) \<le> x" by (simp add: xy)
    have "(2::rat) ^ nat (bitlen m - 1) \<le> of_int m" using b by (simp add: pow_le_rat)
    with m(1) have ygt: "2 ^ nat (bitlen m - 1) < y" by linarith
    have "1 / y < 1 / 2 ^ nat (bitlen m - 1)"
      using ygt by (simp add: frac_less2)
    also have "\<dots> = pow2 (- bitlen m + 1)"
    proof (cases "bitlen m = 1")
      case True
      then show ?thesis by (simp add: pow2_def)
    next
      case False
      with b1 have "nat (bitlen m - 1) = nat (- (- bitlen m + 1))" "\<not> 0 \<le> - bitlen m + 1" by simp_all
      then show ?thesis by (simp add: pow2_def)
    qed
    finally have "x < pow2 (- bitlen m + 1)" by (simp add: xy)
    with lo il show ?thesis by simp
  qed
  then show "pow2 (ilog2 x) \<le> x" and "x < pow2 (ilog2 x + 1)" by simp_all
qed

subsection \<open>Rounding to 53 bits\<close>

text \<open>
  The error of \<open>round_float64\<close> is at most half a unit in the last place, that is at most
  \<open>x / 2^53\<close>; numbers with at most 53 significant bits are not changed.
\<close>

lemma round_float64_0 [simp]: "round_float64 0 = 0"
  by (simp add: round_float64_def)

lemma round_float64_pos_eq:
  "0 < x \<Longrightarrow>
     round_float64 x = of_int (nearest_even (x / pow2 (ilog2 x - 52))) * pow2 (ilog2 x - 52)"
  by (simp add: round_float64_def Let_def)

lemma pow2_half: "pow2 (e - 1) = pow2 e / 2"
proof -
  have "pow2 (e - 1) = pow2 e * pow2 (- 1)" using pow2_add [of e "- 1"] by simp
  also have "pow2 (- 1) = 1 / 2" by (simp add: pow2_def)
  finally show ?thesis by simp
qed

lemma round_float64_error:
  assumes "0 < x"
  shows "\<bar>round_float64 x - x\<bar> \<le> pow2 (ilog2 x - 53)"
proof -
  define e where "e = ilog2 x - 52"
  define N where "N = nearest_even (x / pow2 e)"
  have r: "round_float64 x = of_int N * pow2 e"
    using assms by (simp add: round_float64_pos_eq e_def N_def)
  have "\<bar>of_int N - x / pow2 e\<bar> \<le> 1 / 2"
    using nearest_even_bounds [of "x / pow2 e"] unfolding N_def by linarith
  then have "\<bar>of_int N - x / pow2 e\<bar> * pow2 e \<le> 1 / 2 * pow2 e"
    by (rule mult_right_mono) (simp add: less_imp_le)
  moreover have "\<bar>of_int N - x / pow2 e\<bar> * pow2 e = \<bar>of_int N * pow2 e - x\<bar>"
  proof -
    have "\<bar>pow2 e\<bar> = pow2 e" by (simp add: less_imp_le)
    then have "\<bar>of_int N - x / pow2 e\<bar> * pow2 e = \<bar>(of_int N - x / pow2 e) * pow2 e\<bar>"
      by (simp only: abs_mult)
    also have "(of_int N - x / pow2 e) * pow2 e = of_int N * pow2 e - x"
      by (simp add: left_diff_distrib)
    finally show ?thesis .
  qed
  ultimately have "\<bar>round_float64 x - x\<bar> \<le> pow2 e / 2" by (simp add: r)
  also have "\<dots> = pow2 (ilog2 x - 53)" using pow2_half [of e] by (simp add: e_def)
  finally show ?thesis .
qed

lemma round_float64_rel:
  assumes "0 < x"
  shows "\<bar>round_float64 x - x\<bar> \<le> x / 2 ^ 53"
proof -
  have "pow2 (ilog2 x - 53) = pow2 (ilog2 x) * pow2 (- 53)"
    using pow2_add [of "ilog2 x" "- 53"] by simp
  also have "pow2 (- 53) = 1 / 2 ^ 53" using pow2_neg [of 53] by simp
  finally have "pow2 (ilog2 x - 53) = pow2 (ilog2 x) / 2 ^ 53" by simp
  also have "\<dots> \<le> x / 2 ^ 53"
    using ilog2_bounds(1) [OF assms] by (simp add: divide_right_mono)
  finally show ?thesis using round_float64_error [OF assms] by linarith
qed

lemma round_float64_pos:
  assumes "0 < x"
  shows "0 < round_float64 x"
proof -
  have "x / 2 ^ 53 < x" using assms by simp
  with round_float64_rel [OF assms] show ?thesis by linarith
qed

lemma round_float64_nonneg: "0 \<le> x \<Longrightarrow> 0 \<le> round_float64 x"
  using round_float64_pos [of x] by (cases "x = 0") (simp_all add: less_imp_le)

text \<open>A number with at most 53 significant bits is a float.\<close>

lemma round_float64_exact:
  assumes "0 < m" and "m < 2 ^ 53"
  shows "round_float64 (of_int m / 2 ^ j) = of_int m / 2 ^ j"
proof -
  define x :: rat where "x = of_int m / 2 ^ j"
  define e where "e = ilog2 x - 52"
  have xpos: "0 < x" using assms(1) by (simp add: x_def)
  have "(of_int m :: rat) < of_int (2 ^ 53)" using assms(2) by (simp only: of_int_less_iff)
  then have "(of_int m :: rat) < 2 ^ 53" by simp
  then have "x < 2 ^ 53 / 2 ^ j" by (simp add: x_def divide_strict_right_mono)
  also have "\<dots> = pow2 53 * pow2 (- int j)" by (simp add: pow2_neg pow2_def)
  also have "\<dots> = pow2 (53 - int j)" using pow2_add [of 53 "- int j"] by simp
  finally have "pow2 (ilog2 x) < pow2 (53 - int j)"
    using ilog2_bounds(1) [OF xpos] by linarith
  then have "ilog2 x < 53 - int j" by (rule pow2_less_imp)
  then have e: "0 \<le> - e - int j" by (simp add: e_def)
  have "x / pow2 e = x * pow2 (- e)"
    using pow2_add [of e "- e"] by (simp add: pow2_def field_simps)
  also have "\<dots> = of_int m * (pow2 (- int j) * pow2 (- e))" by (simp add: x_def pow2_neg)
  also have "pow2 (- int j) * pow2 (- e) = pow2 (- e - int j)"
    using pow2_add [of "- int j" "- e"] by (simp add: algebra_simps)
  also have "\<dots> = 2 ^ nat (- e - int j)" using e by (simp add: pow2_nat)
  finally have "x / pow2 e = of_int (m * 2 ^ nat (- e - int j))" by simp
  then have "nearest_even (x / pow2 e) = m * 2 ^ nat (- e - int j)"
    by (simp only: nearest_even_of_int)
  then have "round_float64 x = of_int (m * 2 ^ nat (- e - int j)) * pow2 e"
    using xpos by (simp add: round_float64_pos_eq e_def)
  also have "\<dots> = of_int m * (pow2 (- e - int j) * pow2 e)" using e by (simp add: pow2_nat)
  also have "pow2 (- e - int j) * pow2 e = pow2 (- int j)"
    using pow2_add [of "- e - int j" e] by simp
  finally show ?thesis by (simp add: x_def pow2_neg)
qed

lemma round_float64_int:
  assumes "0 \<le> n" and "n < 2 ^ 53"
  shows "round_float64 (of_int n) = of_int n"
proof (cases "n = 0")
  case True
  then show ?thesis by simp
next
  case False
  with assms have "0 < n" by simp
  from round_float64_exact [OF this assms(2), of 0] show ?thesis by simp
qed

text \<open>A float from \<open>2^52\<close> on is an integer.\<close>

lemma float_integral:
  assumes "round_float64 x = x" and "2 ^ 52 \<le> x"
  shows "\<exists>n. x = of_int n"
proof -
  have xpos: "0 < x" using assms(2) by (rule less_le_trans [rotated]) simp
  have "pow2 52 \<le> x" using assms(2) by (simp add: pow2_def)
  with ilog2_bounds(2) [OF xpos] have "pow2 52 < pow2 (ilog2 x + 1)" by linarith
  then have "52 < ilog2 x + 1" by (rule pow2_less_imp)
  then have e: "0 \<le> ilog2 x - 52" by simp
  define N where "N = nearest_even (x / pow2 (ilog2 x - 52))"
  have "x = of_int N * pow2 (ilog2 x - 52)"
    using assms(1) xpos by (simp add: round_float64_pos_eq N_def)
  also have "\<dots> = of_int (N * 2 ^ nat (ilog2 x - 52))" using e by (simp add: pow2_nat)
  finally show ?thesis ..
qed

subsection \<open>rint on non-negative numbers\<close>

lemma word_of_int_mod2_eq: "(word_of_int k :: uint64) mod 2 = (if even k then 0 else 1)"
  using even_of_int_iff [where ?'a = uint64, of k] by (simp add: mod_2_eq_odd)

lemma uint_word_of_int_small: "0 \<le> k \<Longrightarrow> k < 2 ^ 64 \<Longrightarrow> uint (word_of_int k :: uint64) = k"
  by (simp add: uint_word_of_int_eq take_bit_int_eq_self)

lemma uint64_of_float_int:
  assumes "0 \<le> k" and "k < 2 ^ 64"
  shows "uint64_of_float oor (of_int k) = word_of_int k"
proof -
  have "(of_int k :: rat) < of_int (2 ^ 64)" using assms(2) by (simp only: of_int_less_iff)
  then have "(of_int k :: rat) < 2 ^ 64" by simp
  with assms(1) show ?thesis by (simp add: uint64_of_float_def)
qed

lemma Modf_nonneg: "0 \<le> y \<Longrightarrow> Modf y = (of_int \<lfloor>y\<rfloor>, y - of_int \<lfloor>y\<rfloor>)"
  by (simp add: Modf_def Let_def)

lemma floor_less_pow:
  fixes y :: rat
  assumes "0 \<le> y" and "y < 2 ^ n"
  shows "0 \<le> \<lfloor>y\<rfloor>" and "\<lfloor>y\<rfloor> < 2 ^ n"
proof -
  show "0 \<le> \<lfloor>y\<rfloor>" using assms(1) by simp
  show "\<lfloor>y\<rfloor> < 2 ^ n" using assms(2) by (simp add: floor_less_iff)
qed

text \<open>On a non-negative number below \<open>2^52\<close>, \<open>rint\<close> rounds to the nearest integer, ties to even.\<close>

lemma rint_nearest_even:
  assumes "0 \<le> y" and "y < 2 ^ 52"
  shows "rint oor y = word_of_int (nearest_even y)"
proof -
  define v where "v = \<lfloor>y\<rfloor>"
  have v: "0 \<le> v" "v < 2 ^ 52" using floor_less_pow [OF assms] by (simp_all add: v_def)
  then have v64: "v < 2 ^ 64" "v + 1 < 2 ^ 64" "0 \<le> v + 1" "v + 1 < 2 ^ 53" by simp_all
  have m: "Modf y = (of_int v, y - of_int v)" using assms(1) by (simp add: Modf_nonneg v_def)
  have c: "uint64_of_float oor (of_int v) = word_of_int v"
    using v(1) v64(1) by (rule uint64_of_float_int)
  have "fadd (of_int v) 1 = round_float64 (of_int (v + 1))" by (simp add: fadd_def)
  also have "\<dots> = of_int (v + 1)" using v64(3,4) by (rule round_float64_int)
  finally have c1: "uint64_of_float oor (fadd (of_int v) 1) = word_of_int (v + 1)"
    using uint64_of_float_int [OF v64(3) v64(2)] by simp
  have fr: "0 \<le> y - of_int v" unfolding v_def by simp
  show ?thesis
  proof (cases "0 < y")
    case True
    then show ?thesis
      unfolding rint_def m nearest_even_def Let_def v_def [symmetric]
      by (simp add: c c1 word_of_int_mod2_eq)
  next
    case False
    with assms(1) have "y = 0" by simp
    then show ?thesis
      by (simp add: rint_def Modf_def uint64_of_float_def nearest_even_def)
  qed
qed

subsection \<open>A percentage of an amount\<close>

lemma float64_exact: "uint a < 2 ^ 53 \<Longrightarrow> float64 a = of_int (uint a)"
  unfolding float64_def by (rule round_float64_int) simp_all

lemma float64_0: "uint a = 0 \<Longrightarrow> float64 a = 0"
  unfolding float64_def by (simp only: of_int_0 round_float64_0)

lemma mult_less_factor:
  fixes a b :: int
  assumes "0 < a" and "0 < b" and "a * b < c"
  shows "a < c" and "b < c"
proof -
  have "a * 1 \<le> a * b" using assms(1,2) by (intro mult_left_mono) simp_all
  with assms(3) show "a < c" by simp
  have "1 * b \<le> a * b" using assms(1,2) by (intro mult_right_mono) simp_all
  with assms(3) show "b < c" by simp
qed

lemma fmul_exact:
  assumes "uint a * uint b < 2 ^ 53"
  shows "fmul (float64 a) (float64 b) = of_int (uint a * uint b)"
proof (cases "uint a = 0 \<or> uint b = 0")
  case True
  then show ?thesis
  proof
    assume a: "uint a = 0"
    then have "float64 a = 0" by (rule float64_0)
    then show ?thesis by (simp only: fmul_def a mult_zero_left round_float64_0 of_int_0)
  next
    assume b: "uint b = 0"
    then have "float64 b = 0" by (rule float64_0)
    then show ?thesis by (simp only: fmul_def b mult_zero_right round_float64_0 of_int_0)
  qed
next
  case False
  then have pos: "0 < uint a" "0 < uint b" by (simp_all add: less_le)
  from mult_less_factor [OF pos assms] have "uint a < 2 ^ 53" "uint b < 2 ^ 53" .
  then have "fmul (float64 a) (float64 b) = round_float64 (of_int (uint a * uint b))"
    by (simp only: fmul_def float64_exact of_int_mult)
  also have "\<dots> = of_int (uint a * uint b)"
    using assms by (intro round_float64_int) simp_all
  finally show ?thesis .
qed

lemma nearest_even_close:
  assumes "of_int k - 1 / 2 + d \<le> q" and "q \<le> of_int k + 1 / 2 - d" and "\<bar>y - q\<bar> < d"
  shows "nearest_even y = k"
  using assms by (intro nearest_even_unique) linarith+

lemma ilog2_less:
  assumes "0 < x" and "x < pow2 b"
  shows "ilog2 x < b"
proof -
  from ilog2_bounds(1) [OF assms(1)] assms(2) have "pow2 (ilog2 x) < pow2 b" by linarith
  then show ?thesis by (rule pow2_less_imp)
qed

text \<open>Dividing an integer below \<open>2^53\<close> by 100 in float64 and rounding with \<open>rint\<close> gives
  the exact quotient rounded half to even.\<close>

lemma rint_div100:
  assumes "0 \<le> n" and "n < 2 ^ 53"
  shows "rint oor (round_float64 (of_int n / 100)) = word_of_int (nearest_even (of_int n / 100))"
proof (cases "n = 0")
  case True
  then show ?thesis using rint_nearest_even [of 0 oor] by simp
next
  case False
  with assms have npos: "0 < n" by simp
  define q :: rat where "q = of_int n / 100"
  define y where "y = round_float64 q"
  define k where "k = n div 100"
  define r where "r = n mod 100"
  have qpos: "0 < q" using npos by (simp add: q_def)
  have n: "n = 100 * k + r" and r: "0 \<le> r" "r < 100" by (simp_all add: k_def r_def)
  have "(of_int n :: rat) = of_int (100 * k + r)" by (simp only: n [symmetric])
  then have qk: "q = of_int k + of_int r / 100" by (simp add: q_def)
  have "(of_int n :: rat) < of_int (2 ^ 53)" using assms(2) by (simp only: of_int_less_iff)
  then have nlt: "(of_int n :: rat) < 2 ^ 53" by simp
  then have "q < 2 ^ 47" by (simp add: q_def)
  then have qlt: "q < pow2 47" by (simp add: pow2_def)
  from ilog2_less [OF qpos this] have "ilog2 q - 53 \<le> - 7" by simp
  then have "pow2 (ilog2 q - 53) \<le> pow2 (- 7)" by (rule pow2_mono)
  also have "pow2 (- 7) = 1 / 128" by (simp add: pow2_def)
  finally have err: "\<bar>y - q\<bar> \<le> 1 / 128"
    using round_float64_error [OF qpos] by (simp add: y_def)
  have y0: "0 \<le> y" using qpos by (simp add: y_def round_float64_nonneg less_imp_le)
  have "y \<le> q + 1 / 128" using err by linarith
  also have "\<dots> < 2 ^ 52" using \<open>q < 2 ^ 47\<close> by simp
  finally have y52: "y < 2 ^ 52" .
  have ry: "rint oor y = word_of_int (nearest_even y)" using y0 y52 by (rule rint_nearest_even)
  have "nearest_even y = nearest_even q"
  proof -
    consider "r < 50" | "r = 50" | "50 < r" by linarith
    then show ?thesis
    proof cases
      case 1
      then have "r \<le> 49" by simp
      then have "(of_int r :: rat) \<le> of_int 49" by (simp only: of_int_le_iff)
      moreover have "(of_int 0 :: rat) \<le> of_int r" using r(1) by (simp only: of_int_le_iff)
      ultimately have b: "of_int k - 1 / 2 + 1 / 100 \<le> q" "q \<le> of_int k + 1 / 2 - 1 / 100"
        by (simp_all add: qk)
      have "nearest_even y = k"
        using b err by (intro nearest_even_close [where d = "1 / 100" and q = q]) linarith+
      moreover have "nearest_even q = k"
        using b by (intro nearest_even_close [where d = "1 / 100" and q = q]) linarith+
      ultimately show ?thesis by simp
    next
      case 2
      then have q2: "q = of_int (2 * k + 1) / 2 ^ 1" by (simp add: qk)
      have "0 < 2 * k + 1" "2 * k + 1 < 2 ^ 53" using npos assms(2) n 2 by simp_all
      then have "round_float64 (of_int (2 * k + 1) / 2 ^ 1) = of_int (2 * k + 1) / 2 ^ 1"
        by (rule round_float64_exact)
      then have "round_float64 q = q" by (simp only: q2 [symmetric])
      then show ?thesis by (simp only: y_def)
    next
      case 3
      then have "51 \<le> r" by simp
      then have "(of_int 51 :: rat) \<le> of_int r" by (simp only: of_int_le_iff)
      moreover have "r \<le> 99" using r(2) by simp
      then have "(of_int r :: rat) \<le> of_int 99" by (simp only: of_int_le_iff)
      ultimately have b: "of_int (k + 1) - 1 / 2 + 1 / 100 \<le> q"
          "q \<le> of_int (k + 1) + 1 / 2 - 1 / 100"
        by (simp_all add: qk)
      have "nearest_even y = k + 1"
        using b err by (intro nearest_even_close [where d = "1 / 100" and q = q]) linarith+
      moreover have "nearest_even q = k + 1"
        using b by (intro nearest_even_close [where d = "1 / 100" and q = q]) linarith+
      ultimately show ?thesis by simp
    qed
  qed
  with ry show ?thesis by (simp add: y_def q_def)
qed

lemma percentOf_exact:
  assumes "uint a * uint b < 2 ^ 53"
  shows "percentOf oor a b = word_of_int (spec_round (of_int (uint a * uint b) / 100))"
proof -
  define n where "n = uint a * uint b"
  have nn: "0 \<le> n" by (simp add: n_def)
  have n53: "n < 2 ^ 53" using assms by (simp only: n_def)
  have "fmul (float64 a) (float64 b) = of_int n"
    unfolding n_def using assms by (rule fmul_exact)
  then have "percentOf oor a b = rint oor (round_float64 (of_int n / 100))"
    by (simp only: percentOf_def fdiv_def)
  also have "\<dots> = word_of_int (nearest_even (of_int n / 100))"
    using nn n53 by (rule rint_div100)
  also have "nearest_even (of_int n / 100) = spec_round (of_int n / 100)"
    using nn by (simp add: spec_round_nonneg)
  finally show ?thesis by (simp only: n_def)
qed

subsection \<open>The price without the tax it includes\<close>

lemma nearest_even_strict:
  assumes "frac x \<noteq> 1 / 2"
  shows "of_int (nearest_even x) - 1 / 2 < x" and "x < of_int (nearest_even x) + 1 / 2"
proof -
  define v where "v = \<lfloor>x\<rfloor>"
  have v: "of_int v \<le> x" "x < of_int v + 1" unfolding v_def by linarith+
  have f: "x - of_int v \<noteq> 1 / 2" using assms by (simp add: frac_def v_def)
  have "nearest_even x = v \<and> x - of_int v < 1 / 2 \<or>
        nearest_even x = v + 1 \<and> 1 / 2 < x - of_int v"
    using f unfolding nearest_even_def Let_def v_def [symmetric] by auto
  then have "of_int (nearest_even x) - 1 / 2 < x \<and> x < of_int (nearest_even x) + 1 / 2"
  proof
    assume "nearest_even x = v \<and> x - of_int v < 1 / 2"
    with v show ?thesis by simp
  next
    assume "nearest_even x = v + 1 \<and> 1 / 2 < x - of_int v"
    with v show ?thesis by simp
  qed
  then show "of_int (nearest_even x) - 1 / 2 < x" and "x < of_int (nearest_even x) + 1 / 2"
    by simp_all
qed

lemma nearest_even_le:
  assumes "x \<le> of_int P"
  shows "nearest_even x \<le> P"
proof -
  have "of_int (nearest_even x) - 1 / 2 \<le> x" using nearest_even_bounds [of x] by simp
  with assms have "(of_int (nearest_even x) :: rat) < of_int P + 1" by linarith
  then have "(of_int (nearest_even x) :: rat) < of_int (P + 1)" by simp
  then have "nearest_even x < P + 1" by (simp only: of_int_less_iff)
  then show ?thesis by simp
qed

text \<open>
  A quotient \<open>n / d\<close> that is not half an odd number keeps the distance \<open>1 / (2 d)\<close>
  from every such number.
\<close>

lemma quotient_margin:
  fixes n d :: int
  assumes d: "0 < d" and nt: "frac (of_int n / of_int d :: rat) \<noteq> 1 / 2"
  defines "q \<equiv> (of_int n / of_int d :: rat)"
  shows "of_int (nearest_even q) - 1 / 2 + 1 / (2 * of_int d) \<le> q"
    and "q \<le> of_int (nearest_even q) + 1 / 2 - 1 / (2 * of_int d)"
proof -
  define k where "k = nearest_even q"
  have dpos: "(0::rat) < of_int d" using d by simp
  have qd: "q * of_int d = of_int n" using dpos by (simp add: q_def)
  from nearest_even_strict [of q] nt
  have s: "of_int k - 1 / 2 < q" "q < of_int k + 1 / 2" by (simp_all add: k_def q_def)
  have lo: "(of_int (2 * n - 2 * d * k + d) :: rat) = 2 * of_int d * (q - of_int k + 1 / 2)"
    using qd by (simp add: algebra_simps)
  have "0 < 2 * of_int d * (q - of_int k + 1 / 2)"
    using dpos s(1) by (intro mult_pos_pos) simp_all
  then have "(of_int 0 :: rat) < of_int (2 * n - 2 * d * k + d)" by (simp only: lo of_int_0)
  then have "0 < 2 * n - 2 * d * k + d" by (simp only: of_int_less_iff)
  then have "1 \<le> 2 * n - 2 * d * k + d" by simp
  then have "(of_int 1 :: rat) \<le> of_int (2 * n - 2 * d * k + d)" by (simp only: of_int_le_iff)
  then have "1 \<le> 2 * of_int d * (q - of_int k + 1 / 2)" by (simp only: lo of_int_1)
  then have "1 / (2 * of_int d) \<le> q - of_int k + 1 / 2"
    using dpos by (simp add: field_simps)
  then show "of_int (nearest_even q) - 1 / 2 + 1 / (2 * of_int d) \<le> q"
    by (simp add: k_def)
  have hi: "(of_int (2 * d * k + d - 2 * n) :: rat) = 2 * of_int d * (of_int k + 1 / 2 - q)"
    using qd by (simp add: algebra_simps)
  have "0 < 2 * of_int d * (of_int k + 1 / 2 - q)"
    using dpos s(2) by (intro mult_pos_pos) simp_all
  then have "(of_int 0 :: rat) < of_int (2 * d * k + d - 2 * n)" by (simp only: hi of_int_0)
  then have "0 < 2 * d * k + d - 2 * n" by (simp only: of_int_less_iff)
  then have "1 \<le> 2 * d * k + d - 2 * n" by simp
  then have "(of_int 1 :: rat) \<le> of_int (2 * d * k + d - 2 * n)" by (simp only: of_int_le_iff)
  then have "1 \<le> 2 * of_int d * (of_int k + 1 / 2 - q)" by (simp only: hi of_int_1)
  then have "1 / (2 * of_int d) \<le> of_int k + 1 / 2 - q"
    using dpos by (simp add: field_simps)
  then show "q \<le> of_int (nearest_even q) + 1 / 2 - 1 / (2 * of_int d)"
    by (simp add: k_def)
qed

text \<open>
  The price without the tax it includes. Below \<open>2^43\<close>, and unless the exact quotient
  \<open>100 p / (100 + pct)\<close> is half an odd number, the two float64 roundings of
  \<open>p / (100 + pct) * 100\<close> do not move the result of \<open>rint\<close>.
\<close>

lemma exclusivePrice_exact:
  assumes P: "uint p < 2 ^ 43" and C: "uint pct < 2 ^ 10"
    and nt: "frac (of_int (100 * uint p) / of_int (100 + uint pct) :: rat) \<noteq> 1 / 2"
  shows "exclusivePrice oor p pct
    = word_of_int (nearest_even (of_int (100 * uint p) / of_int (100 + uint pct)))"
proof -
  define Pi where "Pi = uint p"
  define d where "d = 100 + uint pct"
  define q :: rat where "q = of_int (100 * Pi) / of_int d"
  have P0: "0 \<le> Pi" by (simp add: Pi_def)
  have P43: "Pi < 2 ^ 43" using P by (simp only: Pi_def)
  have d100: "100 \<le> d" by (simp add: d_def)
  have d53: "d < 2 ^ 53" using C by (simp add: d_def)
  have "(of_int 100 :: rat) \<le> of_int d" using d100 by (simp only: of_int_le_iff)
  then have dr: "(100::rat) \<le> of_int d" by simp
  then have dpos: "(0::rat) < of_int d" by simp
  have fp: "float64 p = of_int Pi" unfolding Pi_def using P by (intro float64_exact) simp
  have fc: "float64 pct = of_int (uint pct)" using C by (intro float64_exact) simp
  have "fadd 100 (float64 pct) = round_float64 (of_int d)"
    by (simp only: fadd_def fc d_def of_int_add of_int_numeral)
  also have "\<dots> = of_int d" using d100 d53 by (intro round_float64_int) simp_all
  finally have fd: "fadd 100 (float64 pct) = of_int d" .
  have ex: "exclusivePrice oor p pct
      = rint oor (round_float64 (round_float64 (of_int Pi / of_int d) * 100))"
    by (simp only: exclusivePrice_def fmul_def fdiv_def fp fd)
  show ?thesis
  proof (cases "Pi = 0")
    case True
    have "rint oor 0 = word_of_int (nearest_even 0)" by (rule rint_nearest_even) simp_all
    then show ?thesis unfolding ex Pi_def [symmetric] by (simp add: True)
  next
    case False
    with P0 have Ppos: "0 < Pi" by simp
    then have Pr: "(0::rat) < of_int Pi" by simp
    define x :: rat where "x = of_int Pi / of_int d"
    define x1 where "x1 = round_float64 x"
    define x2 where "x2 = round_float64 (x1 * 100)"
    have xpos: "0 < x" using Pr dpos by (simp add: x_def)
    have qx: "q = 100 * x" by (simp add: q_def x_def)
    have e1: "\<bar>x1 - x\<bar> \<le> x / 2 ^ 53" unfolding x1_def using xpos by (rule round_float64_rel)
    have x1pos: "0 < x1" unfolding x1_def using xpos by (rule round_float64_pos)
    then have x1100: "0 < x1 * 100" by simp
    have e2: "\<bar>x2 - x1 * 100\<bar> \<le> x1 * 100 / 2 ^ 53"
      unfolding x2_def using x1100 by (rule round_float64_rel)
    have "x / 2 ^ 53 \<le> x" using xpos by simp
    with e1 have x1le: "x1 \<le> 2 * x" by linarith
    have "x2 - q = (x2 - x1 * 100) + 100 * (x1 - x)" by (simp add: qx)
    then have "\<bar>x2 - q\<bar> \<le> \<bar>x2 - x1 * 100\<bar> + \<bar>100 * (x1 - x)\<bar>"
      by (simp only: abs_triangle_ineq)
    also have "\<bar>100 * (x1 - x)\<bar> = \<bar>100\<bar> * \<bar>x1 - x\<bar>" by (rule abs_mult)
    finally have "\<bar>x2 - q\<bar> \<le> \<bar>x2 - x1 * 100\<bar> + 100 * \<bar>x1 - x\<bar>" by simp
    also have "\<dots> \<le> x1 * 100 / 2 ^ 53 + 100 * (x / 2 ^ 53)"
      using e1 e2 by (intro add_mono mult_left_mono) simp_all
    also have "\<dots> \<le> 2 * x * 100 / 2 ^ 53 + 100 * (x / 2 ^ 53)" using x1le by simp
    also have "\<dots> = 3 * q / 2 ^ 53" by (simp add: qx)
    finally have err: "\<bar>x2 - q\<bar> \<le> 3 * q / 2 ^ 53" .
    have "600 * Pi < 600 * 2 ^ 43" using P43 by simp
    also have "\<dots> < (2::int) ^ 53" by simp
    finally have "(of_int (600 * Pi) :: rat) < of_int (2 ^ 53)" by (simp only: of_int_less_iff)
    then have s: "600 * of_int Pi < (2::rat) ^ 53" by simp
    have "3 * q / 2 ^ 53 = (600 * of_int Pi / 2 ^ 53) * (1 / (2 * of_int d))"
      by (simp add: q_def)
    also have "\<dots> < 1 * (1 / (2 * of_int d))"
      using s dpos by (intro mult_strict_right_mono) simp_all
    finally have small: "3 * q / 2 ^ 53 < 1 / (2 * of_int d)" by simp
    with err have close: "\<bar>x2 - q\<bar> < 1 / (2 * of_int d)" by linarith
    have dpos': "0 < d" using d100 by simp
    have nt': "frac (of_int (100 * Pi) / of_int d :: rat) \<noteq> 1 / 2"
      unfolding Pi_def d_def by (rule nt)
    note m = quotient_margin [OF dpos' nt', folded q_def]
    have ne: "nearest_even x2 = nearest_even q"
      using m close by (rule nearest_even_close)
    have "q \<le> of_int Pi"
    proof -
      have "of_int (100 * Pi) \<le> of_int Pi * (of_int d :: rat)"
        using dr Pr by (simp add: mult.commute)
      then show ?thesis using dpos by (simp add: q_def divide_le_eq)
    qed
    moreover have "(of_int Pi :: rat) < of_int (2 ^ 43)" using P43 by (simp only: of_int_less_iff)
    ultimately have q43: "q < 2 ^ 43" by simp
    have "1 / (2 * of_int d) \<le> (1::rat)" using dr by simp
    with close have "x2 < q + 1" by linarith
    with q43 have x252: "x2 < 2 ^ 52" by simp
    have x20: "0 \<le> x2" unfolding x2_def using x1100 by (intro round_float64_nonneg) simp
    have "rint oor x2 = word_of_int (nearest_even x2)" using x20 x252 by (rule rint_nearest_even)
    then have r: "rint oor x2 = word_of_int (nearest_even q)" by (simp only: ne)
    have "exclusivePrice oor p pct = rint oor x2" by (simp only: ex x2_def x1_def x_def)
    with r show ?thesis by (simp only: q_def Pi_def d_def)
  qed
qed

lemma exclusivePrice_bounds:
  assumes P: "uint p < 2 ^ 43" and C: "uint pct < 2 ^ 10"
    and nt: "frac (of_int (100 * uint p) / of_int (100 + uint pct) :: rat) \<noteq> 1 / 2"
  shows "uint (exclusivePrice oor p pct)
      = nearest_even (of_int (100 * uint p) / of_int (100 + uint pct))"
    and "uint (exclusivePrice oor p pct) * uint pct < 2 ^ 53"
proof -
  define Pi where "Pi = uint p"
  define d where "d = 100 + uint pct"
  define k where "k = nearest_even (of_int (100 * Pi) / of_int d)"
  have P0: "0 \<le> Pi" by (simp add: Pi_def)
  have d100: "100 \<le> d" by (simp add: d_def)
  have "(of_int 100 :: rat) \<le> of_int d" using d100 by (simp only: of_int_le_iff)
  then have dr: "(100::rat) \<le> of_int d" by simp
  then have dpos: "(0::rat) < of_int d" by simp
  have Pr: "(0::rat) \<le> of_int Pi" using P0 by (simp only: of_int_0_le_iff)
  have "(of_int (100 * Pi) / of_int d :: rat) \<le> of_int Pi"
  proof -
    from dr Pr have "of_int (100 * Pi) \<le> of_int Pi * (of_int d :: rat)"
      by (simp add: mult.commute mult_left_mono)
    then show ?thesis using dpos by (simp add: divide_le_eq)
  qed
  then have kP: "k \<le> Pi" unfolding k_def by (rule nearest_even_le)
  have "(0::rat) \<le> of_int (100 * Pi) / of_int d" using Pr dpos by simp
  then have k0: "0 \<le> k" unfolding k_def by (rule nearest_even_nonneg)
  from kP P have k64: "k < 2 ^ 64" by (simp add: Pi_def)
  have "exclusivePrice oor p pct = word_of_int k"
    unfolding k_def Pi_def d_def using assms by (rule exclusivePrice_exact)
  then have u: "uint (exclusivePrice oor p pct) = k"
    using k0 k64 by (simp add: uint_word_of_int_small)
  then show "uint (exclusivePrice oor p pct)
      = nearest_even (of_int (100 * uint p) / of_int (100 + uint pct))"
    by (simp only: k_def Pi_def d_def)
  have "k * uint pct \<le> Pi * uint pct" using kP by (simp add: mult_right_mono)
  also have "\<dots> \<le> 2 ^ 43 * uint pct" using P by (simp add: mult_right_mono Pi_def)
  also have "\<dots> < 2 ^ 43 * 2 ^ 10" using C by simp
  finally show "uint (exclusivePrice oor p pct) * uint pct < 2 ^ 53" by (simp add: u)
qed

section \<open>The calculator returns\<close>

lemma firstApplicable_returns:
  "None \<notin> set ts \<Longrightarrow> \<exists>r. firstApplicable ts country productType = Inr r"
  by (induction ts country productType rule: firstApplicable.induct) auto

lemma subItemAmounts_returns:
  "None \<notin> set ts \<Longrightarrow> \<exists>r. subItemAmounts ts country items = Inr r"
proof (induction items)
  case Nil
  then show ?case by simp
next
  case (Cons item items)
  from Cons.prems obtain r where "firstApplicable ts country (ProductType item) = Inr r"
    using firstApplicable_returns by blast
  moreover from Cons obtain rs where "subItemAmounts ts country items = Inr rs" by blast
  ultimately show ?case by (simp add: Let_def)
qed

lemma taxAmounts_returns:
  assumes "rulesPresent settings"
  shows "\<exists>r. taxAmounts settings country item = Inr r"
proof (cases settings)
  case None
  then show ?thesis by (simp add: taxAmounts_def)
next
  case (Some s)
  with assms have nn: "None \<notin> set (Settings.Taxes s)" by (simp add: rulesPresent_def)
  obtain r where r: "firstApplicable (Settings.Taxes s) country (ProductType item) = Inr r"
    using firstApplicable_returns [OF nn] by blast
  obtain rs where rs: "subItemAmounts (Settings.Taxes s) country (TaxableItems item) = Inr rs"
    using subItemAmounts_returns [OF nn] by blast
  show ?thesis using Some r rs by (cases r) (simp_all add: taxAmounts_def)
qed

lemma priceItem_returns:
  assumes "rulesPresent settings"
  shows "\<exists>r. priceItem oor settings country coupon item = Inr r"
proof -
  obtain as where "taxAmounts settings country item = Inr as"
    using taxAmounts_returns [OF assms] by blast
  then show ?thesis by (simp add: priceItem_def Let_def)
qed

lemma priceItems_returns:
  assumes "rulesPresent settings"
  shows "\<exists>r. priceItems oor settings country coupon items pr = Inr r"
proof (induction items arbitrary: pr)
  case Nil
  then show ?case by simp
next
  case (Cons item items)
  obtain ip where "priceItem oor settings country coupon item = Inr ip"
    using priceItem_returns [OF assms] by blast
  with Cons show ?case by simp
qed

lemma CalculatePrice_returns:
  assumes "rulesPresent settings"
  shows "\<exists>p. CalculatePrice oor settings country currency coupon items = Inr p"
proof -
  obtain r where "priceItems oor settings country coupon items
      \<lparr>Items = [], Subtotal = 0, Discount = 0, Taxes = 0, Total = 0\<rparr> = Inr r"
    using priceItems_returns [OF assms] by blast
  then show ?thesis by (simp add: CalculatePrice_def)
qed

section \<open>The shape of the result\<close>

lemma priceItem_Total:
  "priceItem oor settings country coupon item = Inr ip \<Longrightarrow>
     ItemPrice.Total ip = ItemPrice.Subtotal ip - ItemPrice.Discount ip + ItemPrice.Taxes ip"
  by (auto simp: priceItem_def Let_def split: sum.splits)

lemma applyTaxes_exclusive:
  "applyTaxes oor False amounts ip =
     ip\<lparr>ItemPrice.Taxes := ItemPrice.Taxes ip
          + (\<Sum>ta\<leftarrow>amounts. percentOf oor (price ta) (percentage ta))\<rparr>"
  by (induction amounts arbitrary: ip) (simp_all add: add.assoc)

lemma applyTaxes_inclusive:
  "applyTaxes oor True amounts ip =
     ip\<lparr>ItemPrice.Subtotal := ItemPrice.Subtotal ip
          + (\<Sum>ta\<leftarrow>amounts. exclusivePrice oor (price ta) (percentage ta)),
        ItemPrice.Taxes := ItemPrice.Taxes ip
          + (\<Sum>ta\<leftarrow>amounts.
               percentOf oor (exclusivePrice oor (price ta) (percentage ta)) (percentage ta))\<rparr>"
  by (induction amounts arbitrary: ip) (simp_all add: add.assoc Let_def)

lemma applyTaxes_Quantity: "Quantity (applyTaxes oor inc amounts ip) = Quantity ip"
  by (cases inc) (simp_all add: applyTaxes_exclusive applyTaxes_inclusive)

lemma priceItem_Quantity:
  "priceItem oor settings country coupon item = Inr ip \<Longrightarrow> Quantity ip = GetQuantity item"
  by (auto simp: priceItem_def Let_def applyTaxes_Quantity split: sum.splits option.splits if_splits)

text \<open>What the loop over the items has done when it returns.\<close>

lemma priceItems_result:
  "priceItems oor settings country coupon items pr = Inr p \<Longrightarrow>
     \<exists>ips. map Inr ips = map (priceItem oor settings country coupon) items \<and>
       Items p = Items pr @ ips \<and>
       Price.Subtotal p = Price.Subtotal pr + (\<Sum>ip\<leftarrow>ips. ItemPrice.Subtotal ip * Quantity ip) \<and>
       Price.Discount p = Price.Discount pr + (\<Sum>ip\<leftarrow>ips. ItemPrice.Discount ip * Quantity ip) \<and>
       Price.Taxes p = Price.Taxes pr + (\<Sum>ip\<leftarrow>ips. ItemPrice.Taxes ip * Quantity ip) \<and>
       Price.Total p = Price.Total pr + (\<Sum>ip\<leftarrow>ips. ItemPrice.Total ip * Quantity ip)"
proof (induction items arbitrary: pr)
  case Nil
  then show ?case by simp
next
  case (Cons item items)
  from Cons.prems obtain ip where ip: "priceItem oor settings country coupon item = Inr ip"
    by (auto split: sum.splits)
  let ?pr = "pr\<lparr>Items := Items pr @ [ip],
               Price.Subtotal := Price.Subtotal pr + ItemPrice.Subtotal ip * Quantity ip,
               Price.Discount := Price.Discount pr + ItemPrice.Discount ip * Quantity ip,
               Price.Taxes := Price.Taxes pr + ItemPrice.Taxes ip * Quantity ip,
               Price.Total := Price.Total pr + ItemPrice.Total ip * Quantity ip\<rparr>"
  from Cons.prems ip have "priceItems oor settings country coupon items ?pr = Inr p" by simp
  from Cons.IH [OF this] obtain ips where
    ips: "map Inr ips = map (priceItem oor settings country coupon) items"
      "Items p = Items ?pr @ ips"
      "Price.Subtotal p = Price.Subtotal ?pr + (\<Sum>ip\<leftarrow>ips. ItemPrice.Subtotal ip * Quantity ip)"
      "Price.Discount p = Price.Discount ?pr + (\<Sum>ip\<leftarrow>ips. ItemPrice.Discount ip * Quantity ip)"
      "Price.Taxes p = Price.Taxes ?pr + (\<Sum>ip\<leftarrow>ips. ItemPrice.Taxes ip * Quantity ip)"
      "Price.Total p = Price.Total ?pr + (\<Sum>ip\<leftarrow>ips. ItemPrice.Total ip * Quantity ip)"
    by blast
  show ?case
  proof (intro exI conjI)
    show "map Inr (ip # ips) = map (priceItem oor settings country coupon) (item # items)"
      using ip ips(1) by simp
    show "Items p = Items pr @ ip # ips" using ips(2) by simp
    show "Price.Subtotal p = Price.Subtotal pr + (\<Sum>ip\<leftarrow>ip # ips. ItemPrice.Subtotal ip * Quantity ip)"
      using ips(3) by (simp add: add.assoc)
    show "Price.Discount p = Price.Discount pr + (\<Sum>ip\<leftarrow>ip # ips. ItemPrice.Discount ip * Quantity ip)"
      using ips(4) by (simp add: add.assoc)
    show "Price.Taxes p = Price.Taxes pr + (\<Sum>ip\<leftarrow>ip # ips. ItemPrice.Taxes ip * Quantity ip)"
      using ips(5) by (simp add: add.assoc)
    show "Price.Total p = Price.Total pr + (\<Sum>ip\<leftarrow>ip # ips. ItemPrice.Total ip * Quantity ip)"
      using ips(6) by (simp add: add.assoc)
  qed
qed

lemma map_Inr_eq_member:
  "map Inr ips = map f items \<Longrightarrow> ip \<in> set ips \<Longrightarrow> \<exists>item \<in> set items. f item = Inr ip"
proof (induction ips arbitrary: items)
  case Nil
  then show ?case by simp
next
  case (Cons a ips)
  then show ?case by (cases items) auto
qed

lemma CalculatePrice_result:
  assumes "CalculatePrice oor settings country currency coupon items = Inr p"
  shows "map Inr (Items p) = map (priceItem oor settings country coupon) items"
    and "Price.Subtotal p = (\<Sum>ip\<leftarrow>Items p. ItemPrice.Subtotal ip * Quantity ip)"
    and "Price.Discount p = (\<Sum>ip\<leftarrow>Items p. ItemPrice.Discount ip * Quantity ip)"
    and "Price.Taxes p = (\<Sum>ip\<leftarrow>Items p. ItemPrice.Taxes ip * Quantity ip)"
    and "Price.Total p = Price.Subtotal p - Price.Discount p + Price.Taxes p"
proof -
  let ?init = "\<lparr>Items = [], Subtotal = 0, Discount = 0, Taxes = 0, Total = 0\<rparr>"
  from assms obtain q where q: "priceItems oor settings country coupon items ?init = Inr q"
    and p: "p = q\<lparr>Price.Total := Price.Subtotal q - Price.Discount q + Price.Taxes q\<rparr>"
    by (auto simp: CalculatePrice_def split: sum.splits)
  from priceItems_result [OF q] obtain ips where
    ips: "map Inr ips = map (priceItem oor settings country coupon) items"
      "Items q = Items ?init @ ips"
      "Price.Subtotal q = Price.Subtotal ?init + (\<Sum>ip\<leftarrow>ips. ItemPrice.Subtotal ip * Quantity ip)"
      "Price.Discount q = Price.Discount ?init + (\<Sum>ip\<leftarrow>ips. ItemPrice.Discount ip * Quantity ip)"
      "Price.Taxes q = Price.Taxes ?init + (\<Sum>ip\<leftarrow>ips. ItemPrice.Taxes ip * Quantity ip)"
    by blast
  from ips(2) have items: "Items p = ips" by (simp add: p)
  show "map Inr (Items p) = map (priceItem oor settings country coupon) items"
    using ips(1) items by simp
  show "Price.Subtotal p = (\<Sum>ip\<leftarrow>Items p. ItemPrice.Subtotal ip * Quantity ip)"
    using ips(3) items by (simp add: p)
  show "Price.Discount p = (\<Sum>ip\<leftarrow>Items p. ItemPrice.Discount ip * Quantity ip)"
    using ips(4) items by (simp add: p)
  show "Price.Taxes p = (\<Sum>ip\<leftarrow>Items p. ItemPrice.Taxes ip * Quantity ip)"
    using ips(5) items by (simp add: p)
  show "Price.Total p = Price.Subtotal p - Price.Discount p + Price.Taxes p"
    by (simp add: p)
qed

lemma weighted_sum_distrib:
  fixes q :: "'a \<Rightarrow> uint64"
  shows "(\<Sum>x\<leftarrow>xs. (s x - d x + tx x) * q x) =
    (\<Sum>x\<leftarrow>xs. s x * q x) - (\<Sum>x\<leftarrow>xs. d x * q x) + (\<Sum>x\<leftarrow>xs. tx x * q x)"
  by (induction xs) (simp_all add: algebra_simps)

lemma weighted_totals:
  fixes q :: "'a \<Rightarrow> uint64"
  assumes "\<forall>x \<in> set xs. t x = s x - d x + tx x"
  shows "(\<Sum>x\<leftarrow>xs. t x * q x) =
    (\<Sum>x\<leftarrow>xs. s x * q x) - (\<Sum>x\<leftarrow>xs. d x * q x) + (\<Sum>x\<leftarrow>xs. tx x * q x)"
proof -
  from assms have "map (\<lambda>x. t x * q x) xs = map (\<lambda>x. (s x - d x + tx x) * q x) xs"
    by simp
  then show ?thesis by (simp only: weighted_sum_distrib)
qed

lemma example_coupon_quantity:
  "CalculatePrice (\<lambda>v. 0) (Some exclusive20) ''DE'' ''EUR'' (Some coupon10) [Item 1000 ''book'' 0 [] 3]
     = Inr \<lparr>Items = [\<lparr>Quantity = 3, Subtotal = 1000, Discount = 100, Taxes = 200, Total = 1100\<rparr>],
            Subtotal = 3000, Discount = 300, Taxes = 600, Total = 3300\<rparr>"
  by code_simp

section \<open>The first rule that applies\<close>

lemma contains_iff: "contains ts s \<longleftrightarrow> s \<in> set ts"
  by (induction ts) auto

lemma AppliesTo_iff: "AppliesTo t country productType \<longleftrightarrow> ruleMatches t country productType"
  by (auto simp: AppliesTo_def ruleMatches_def contains_iff Let_def)

lemma firstApplicable_find:
  "firstApplicable (map Some rules) country productType =
     Inr (find (\<lambda>t. ruleMatches t country productType) rules)"
  by (induction rules) (simp_all add: AppliesTo_iff)

lemma firstApplicable_Some_iff:
  "firstApplicable ts country productType = Inr (Some t) \<longleftrightarrow>
     (\<exists>before after. ts = map Some before @ Some t # after \<and>
        ruleMatches t country productType \<and>
        (\<forall>u \<in> set before. \<not> ruleMatches u country productType))"
proof (induction ts country productType rule: firstApplicable.induct)
  case (1 country productType)
  then show ?case by simp
next
  case (2 ts country productType)
  show ?case
  proof
    assume "\<exists>before after. None # ts = map Some before @ Some t # after \<and>
        ruleMatches t country productType \<and>
        (\<forall>u \<in> set before. \<not> ruleMatches u country productType)"
    then obtain before after where "None # ts = map Some before @ Some t # after" by blast
    then have False by (cases before) auto
    then show "firstApplicable (None # ts) country productType = Inr (Some t)" ..
  qed simp
next
  case (3 u ts country productType)
  show ?case
  proof (cases "AppliesTo u country productType")
    case True
    then have m: "ruleMatches u country productType" by (simp add: AppliesTo_iff)
    show ?thesis
    proof
      assume "firstApplicable (Some u # ts) country productType = Inr (Some t)"
      with True have "t = u" by simp
      with m have "Some u # ts = map Some [] @ Some t # ts \<and> ruleMatches t country productType \<and>
          (\<forall>u \<in> set []. \<not> ruleMatches u country productType)" by simp
      then show "\<exists>before after. Some u # ts = map Some before @ Some t # after \<and>
          ruleMatches t country productType \<and>
          (\<forall>u \<in> set before. \<not> ruleMatches u country productType)" by blast
    next
      assume "\<exists>before after. Some u # ts = map Some before @ Some t # after \<and>
          ruleMatches t country productType \<and>
          (\<forall>u \<in> set before. \<not> ruleMatches u country productType)"
      then obtain before after where b: "Some u # ts = map Some before @ Some t # after"
          "\<forall>u \<in> set before. \<not> ruleMatches u country productType" by blast
      have "before = []"
      proof (cases before)
        case (Cons x xs)
        with b(1) have "x = u" by simp
        with b(2) Cons m show ?thesis by simp
      qed simp
      with b(1) have "t = u" by simp
      with True show "firstApplicable (Some u # ts) country productType = Inr (Some t)" by simp
    qed
  next
    case False
    then have m: "\<not> ruleMatches u country productType" by (simp add: AppliesTo_iff)
    from False have eq: "firstApplicable (Some u # ts) country productType
        = firstApplicable ts country productType" by simp
    show ?thesis unfolding eq 3 [OF False]
    proof
      assume "\<exists>before after. ts = map Some before @ Some t # after \<and>
          ruleMatches t country productType \<and>
          (\<forall>u \<in> set before. \<not> ruleMatches u country productType)"
      then obtain before after where b: "ts = map Some before @ Some t # after"
          "ruleMatches t country productType"
          "\<forall>u \<in> set before. \<not> ruleMatches u country productType" by blast
      with m have "Some u # ts = map Some (u # before) @ Some t # after \<and>
          ruleMatches t country productType \<and>
          (\<forall>u \<in> set (u # before). \<not> ruleMatches u country productType)" by simp
      then show "\<exists>before after. Some u # ts = map Some before @ Some t # after \<and>
          ruleMatches t country productType \<and>
          (\<forall>u \<in> set before. \<not> ruleMatches u country productType)" by blast
    next
      assume "\<exists>before after. Some u # ts = map Some before @ Some t # after \<and>
          ruleMatches t country productType \<and>
          (\<forall>u \<in> set before. \<not> ruleMatches u country productType)"
      then obtain before after where b: "Some u # ts = map Some before @ Some t # after"
          "ruleMatches t country productType"
          "\<forall>u \<in> set before. \<not> ruleMatches u country productType" by blast
      from b(1,2) m obtain xs where xs: "before = u # xs" by (cases before) auto
      with b have "ts = map Some xs @ Some t # after \<and> ruleMatches t country productType \<and>
          (\<forall>u \<in> set xs. \<not> ruleMatches u country productType)" by simp
      then show "\<exists>before after. ts = map Some before @ Some t # after \<and>
          ruleMatches t country productType \<and>
          (\<forall>u \<in> set before. \<not> ruleMatches u country productType)" by blast
    qed
  qed
qed

lemma firstApplicable_None_iff:
  "firstApplicable ts country productType = Inr None \<longleftrightarrow>
     (\<exists>rules. ts = map Some rules \<and> (\<forall>u \<in> set rules. \<not> ruleMatches u country productType))"
proof (induction ts country productType rule: firstApplicable.induct)
  case (1 country productType)
  then show ?case by simp
next
  case (2 ts country productType)
  then show ?case by auto
next
  case (3 u ts country productType)
  show ?case
  proof (cases "AppliesTo u country productType")
    case True
    then have m: "ruleMatches u country productType" by (simp add: AppliesTo_iff)
    have "\<not> (\<exists>rules. Some u # ts = map Some rules \<and>
        (\<forall>u \<in> set rules. \<not> ruleMatches u country productType))"
    proof
      assume "\<exists>rules. Some u # ts = map Some rules \<and>
        (\<forall>u \<in> set rules. \<not> ruleMatches u country productType)"
      then obtain rules where r: "Some u # ts = map Some rules \<and>
        (\<forall>u \<in> set rules. \<not> ruleMatches u country productType)" ..
      from r have "u \<in> set rules" by (cases rules) auto
      with r m show False by blast
    qed
    with True show ?thesis by simp
  next
    case False
    then have m: "\<not> ruleMatches u country productType" by (simp add: AppliesTo_iff)
    from False have eq: "firstApplicable (Some u # ts) country productType
        = firstApplicable ts country productType" by simp
    show ?thesis unfolding eq 3 [OF False]
    proof
      assume "\<exists>rules. ts = map Some rules \<and> (\<forall>u \<in> set rules. \<not> ruleMatches u country productType)"
      then obtain rules where "ts = map Some rules \<and>
        (\<forall>u \<in> set rules. \<not> ruleMatches u country productType)" ..
      with m have "Some u # ts = map Some (u # rules) \<and>
        (\<forall>u \<in> set (u # rules). \<not> ruleMatches u country productType)" by simp
      then show "\<exists>rules. Some u # ts = map Some rules \<and>
        (\<forall>u \<in> set rules. \<not> ruleMatches u country productType)" ..
    next
      assume "\<exists>rules. Some u # ts = map Some rules \<and>
        (\<forall>u \<in> set rules. \<not> ruleMatches u country productType)"
      then obtain rules where r: "Some u # ts = map Some rules \<and>
        (\<forall>u \<in> set rules. \<not> ruleMatches u country productType)" ..
      then obtain xs where "rules = u # xs" by (cases rules) auto
      with r have "ts = map Some xs \<and> (\<forall>u \<in> set xs. \<not> ruleMatches u country productType)"
        by simp
      then show "\<exists>rules. ts = map Some rules \<and>
        (\<forall>u \<in> set rules. \<not> ruleMatches u country productType)" ..
    qed
  qed
qed

lemma taxAmounts_simple:
  assumes "FixedVAT item = 0" "TaxableItems item = []"
    and "firstApplicable (Settings.Taxes s) country (ProductType item) = Inr r"
  shows "taxAmounts (Some s) country item =
     Inr (case r of None \<Rightarrow> []
          | Some t \<Rightarrow> [\<lparr>price = PriceInLowestUnit item, percentage = Percentage t\<rparr>])"
  using assms by (cases r) (simp_all add: taxAmounts_def)

section \<open>Absent settings, and sub-items\<close>

lemma priceItem_absent_settings:
  "priceItem oor None country coupon item = Inr ip \<Longrightarrow>
     ItemPrice.Subtotal ip = PriceInLowestUnit item \<and>
     ItemPrice.Taxes ip =
       (if FixedVAT item = 0 then 0
        else percentOf oor (PriceInLowestUnit item) (FixedVAT item))"
  by (auto simp: priceItem_def taxAmounts_def includeTaxes_def Let_def
      split: option.splits if_splits)

lemma example_absent_settings:
  "CalculatePrice (\<lambda>v. 0) None ''DE'' ''EUR'' None [bookBundle, Item 1000 ''book'' 20 [] 1]
     = Inr \<lparr>Items = [\<lparr>Quantity = 1, Subtotal = 100, Discount = 0, Taxes = 0, Total = 100\<rparr>,
                     \<lparr>Quantity = 1, Subtotal = 1000, Discount = 0, Taxes = 200, Total = 1200\<rparr>],
            Subtotal = 1100, Discount = 0, Taxes = 200, Total = 1300\<rparr>"
  by code_simp

lemma subItemAmounts_map:
  "subItemAmounts (map Some rules) country items = Inr (map (subItemAmount rules country) items)"
  by (induction items)
     (simp_all add: firstApplicable_find subItemAmount_def subItemRate_def Let_def)

section \<open>The price of one item\<close>

lemma priceItem_exclusive:
  assumes "taxAmounts settings country item = Inr amounts" and "\<not> includeTaxes settings"
  shows "\<exists>ip. priceItem oor settings country coupon item = Inr ip \<and>
      ItemPrice.Subtotal ip = PriceInLowestUnit item \<and>
      ItemPrice.Taxes ip = (\<Sum>ta\<leftarrow>amounts. percentOf oor (price ta) (percentage ta))"
  using assms
  by (cases coupon; cases "amounts = []")
     (simp_all add: priceItem_def Let_def applyTaxes_exclusive)

lemma priceItem_inclusive:
  assumes "taxAmounts settings country item = Inr amounts" and "includeTaxes settings"
    and "amounts \<noteq> []"
  shows "\<exists>ip. priceItem oor settings country coupon item = Inr ip \<and>
      ItemPrice.Subtotal ip
        = (\<Sum>ta\<leftarrow>amounts. exclusivePrice oor (price ta) (percentage ta)) \<and>
      ItemPrice.Taxes ip
        = (\<Sum>ta\<leftarrow>amounts.
             percentOf oor (exclusivePrice oor (price ta) (percentage ta)) (percentage ta))"
  using assms
  by (cases coupon) (simp_all add: priceItem_def Let_def applyTaxes_inclusive)

lemma priceItem_Discount:
  assumes "priceItem oor settings country coupon item = Inr ip"
  shows "ItemPrice.Discount ip =
     (case coupon of
        None \<Rightarrow> 0
      | Some c \<Rightarrow>
          if ValidForType c (ProductType item)
          then percentOf oor (discountBase settings ip) (PercentageDiscount c)
          else 0)"
proof -
  from assms obtain amounts where a: "taxAmounts settings country item = Inr amounts"
    by (auto simp: priceItem_def Let_def split: sum.splits)
  show ?thesis
    using assms a
    by (cases "includeTaxes settings"; cases "amounts = []"; cases coupon)
       (auto simp: priceItem_def Let_def discountBase_def applyTaxes_exclusive
          applyTaxes_inclusive)
qed

lemma priceItem_ignores_FixedDiscount:
  "priceItem oor settings country (Some (c\<lparr>ValidForPrice := g, FixedDiscount := f\<rparr>)) item
     = priceItem oor settings country (Some c) item"
  by (cases "taxAmounts settings country item") (simp_all add: priceItem_def Let_def)

lemma backedOut_exact:
  assumes "uint (price ta) < 2 ^ 43" and "uint (percentage ta) < 2 ^ 10"
    and "frac (of_int (uint (price ta) * 100) / of_int (100 + uint (percentage ta)) :: rat)
           \<noteq> 1 / 2"
  shows "exclusivePrice oor (price ta) (percentage ta) = word_of_int (backedOut ta)"
    and "percentOf oor (exclusivePrice oor (price ta) (percentage ta)) (percentage ta)
           = word_of_int (percentShare (backedOut ta) (uint (percentage ta)))"
proof -
  define q :: rat
    where "q = of_int (100 * uint (price ta)) / of_int (100 + uint (percentage ta))"
  have c: "uint (price ta) * 100 = 100 * uint (price ta)" by simp
  have nt: "frac (of_int (100 * uint (price ta)) / of_int (100 + uint (percentage ta)) :: rat)
      \<noteq> 1 / 2"
    using assms(3) unfolding c .
  have "0 \<le> uint (price ta)" "0 \<le> uint (percentage ta)" by simp_all
  then have "0 \<le> 100 * uint (price ta)" "0 < 100 + uint (percentage ta)" by linarith+
  then have "(0::rat) \<le> of_int (100 * uint (price ta))"
      "(0::rat) < of_int (100 + uint (percentage ta))"
    by (simp_all only: of_int_0_le_iff of_int_0_less_iff)
  then have "0 \<le> q" unfolding q_def by (intro divide_nonneg_pos)
  then have "spec_round q = nearest_even q" by (rule spec_round_nonneg)
  then have b: "backedOut ta = nearest_even q" unfolding backedOut_def c q_def .
  from exclusivePrice_exact [OF assms(1,2) nt, of oor]
  show e: "exclusivePrice oor (price ta) (percentage ta) = word_of_int (backedOut ta)"
    by (simp only: b q_def)
  from exclusivePrice_bounds [OF assms(1,2) nt, of oor]
  have u: "uint (exclusivePrice oor (price ta) (percentage ta)) = backedOut ta"
    and s: "uint (exclusivePrice oor (price ta) (percentage ta)) * uint (percentage ta) < 2 ^ 53"
    by (simp_all only: b q_def)
  from percentOf_exact [OF s, of oor]
  show "percentOf oor (exclusivePrice oor (price ta) (percentage ta)) (percentage ta)
           = word_of_int (percentShare (backedOut ta) (uint (percentage ta)))"
    by (simp only: u percentShare_def)
qed

section \<open>The claims\<close>

text \<open>
  One theorem for each claim about the calculator, with the claim in words before it and an
  instance on a concrete order after it.
\<close>

text \<open>
  Claim C1. Every item price that \<open>CalculatePrice\<close> returns has
  \<open>Total = Subtotal - Discount + Taxes\<close>, and so has the price of the order, whatever the
  settings, the coupon and the items are; the arithmetic is that of \<open>uint64\<close>. The first
  half of the statement says that a result is returned whenever no tax rule is nil.
\<close>

theorem totals_consistent:
  "(rulesPresent settings \<longrightarrow>
      (\<exists>p. CalculatePrice oor settings country currency coupon items = Inr p)) \<and>
   (\<forall>p. CalculatePrice oor settings country currency coupon items = Inr p \<longrightarrow>
      (\<forall>ip \<in> set (Items p).
         ItemPrice.Total ip = ItemPrice.Subtotal ip - ItemPrice.Discount ip + ItemPrice.Taxes ip) \<and>
      Price.Total p = Price.Subtotal p - Price.Discount p + Price.Taxes p)"
proof (intro conjI impI allI ballI)
  assume "rulesPresent settings"
  then show "\<exists>p. CalculatePrice oor settings country currency coupon items = Inr p"
    by (rule CalculatePrice_returns)
next
  fix p ip
  assume p: "CalculatePrice oor settings country currency coupon items = Inr p"
    and ip: "ip \<in> set (Items p)"
  from map_Inr_eq_member [OF CalculatePrice_result(1) [OF p] ip]
  obtain item where "priceItem oor settings country coupon item = Inr ip" by blast
  then show "ItemPrice.Total ip = ItemPrice.Subtotal ip - ItemPrice.Discount ip + ItemPrice.Taxes ip"
    by (rule priceItem_Total)
next
  fix p
  assume "CalculatePrice oor settings country currency coupon items = Inr p"
  then show "Price.Total p = Price.Subtotal p - Price.Discount p + Price.Taxes p"
    by (rule CalculatePrice_result(5))
qed

theorem totals_consistent_witness:
  "rulesPresent (Some exclusive20) \<and>
   CalculatePrice (\<lambda>v. 0) (Some exclusive20) ''DE'' ''EUR'' (Some coupon10)
       [Item 1000 ''book'' 0 [] 3]
     = Inr \<lparr>Items = [\<lparr>Quantity = 3, Subtotal = 1000, Discount = 100, Taxes = 200, Total = 1100\<rparr>],
            Subtotal = 3000, Discount = 300, Taxes = 600, Total = 3300\<rparr> \<and>
   (1100 :: uint64) = 1000 - 100 + 200 \<and>
   (3300 :: uint64) = 3000 - 300 + 600"
proof -
  have "rulesPresent (Some exclusive20)"
    by (simp add: rulesPresent_def exclusive20_def)
  then show ?thesis
    using totals_consistent [of "Some exclusive20" "\<lambda>v. 0" "''DE''" "''EUR''" "Some coupon10"
        "[Item 1000 ''book'' 0 [] 3]"] example_coupon_quantity
    by simp
qed

text \<open>
  Claim C2, as amended. With prices that include taxes, let every tax amount of an item have
  a basis below \<open>2^43\<close>, a percentage below \<open>2^10\<close>, and an exact quotient
  \<open>basis * 100 / (100 + percentage)\<close> that is not halfway between two integers. Then the
  subtotal of the item is the sum over its tax amounts of
  \<open>basis_excl = round(basis * 100 / (100 + percentage))\<close> and its taxes are the sum of
  \<open>round(basis_excl * percentage / 100)\<close>, rounded half to even, the sums being those of
  \<open>uint64\<close>. An item of 1200 with a rule of 20 per cent has subtotal 1000, taxes 200 and
  total 1200. (The code computes \<open>basis / (100 + percentage) * 100\<close> in float64, dividing
  first; nothing is said here about a quotient halfway between two integers.)
\<close>

theorem inclusive_taxes:
  assumes "taxAmounts settings country item = Inr amounts"
    and "includeTaxes settings"
    and "amounts \<noteq> []"
    and "\<forall>ta \<in> set amounts.
      uint (price ta) < 2 ^ 43 \<and> uint (percentage ta) < 2 ^ 10 \<and>
      frac (of_int (uint (price ta) * 100) / of_int (100 + uint (percentage ta)) :: rat)
        \<noteq> 1 / 2"
  shows "\<exists>ip. priceItem oor settings country coupon item = Inr ip \<and>
      ItemPrice.Subtotal ip = (\<Sum>ta\<leftarrow>amounts. word_of_int (backedOut ta)) \<and>
      ItemPrice.Taxes ip
        = (\<Sum>ta\<leftarrow>amounts.
             word_of_int (percentShare (backedOut ta) (uint (percentage ta))))"
proof -
  have 1: "map (\<lambda>ta. exclusivePrice oor (price ta) (percentage ta)) amounts
      = map (\<lambda>ta. word_of_int (backedOut ta)) amounts"
    using assms(4) by (simp add: backedOut_exact(1))
  have 2: "map (\<lambda>ta. percentOf oor (exclusivePrice oor (price ta) (percentage ta))
               (percentage ta)) amounts
      = map (\<lambda>ta. word_of_int (percentShare (backedOut ta) (uint (percentage ta)))) amounts"
    using assms(4) by (simp add: backedOut_exact(2))
  from priceItem_inclusive [OF assms(1,2,3), of oor coupon] show ?thesis
    by (simp only: 1 2)
qed

theorem inclusive_taxes_witness:
  "priceItem (\<lambda>v. 0) (Some inclusive20) ''DE'' None (Item 1200 ''book'' 0 [] 1)
     = Inr \<lparr>Quantity = 1, Subtotal = 1000, Discount = 0, Taxes = 200, Total = 1200\<rparr> \<and>
   (1000 :: uint64) = word_of_int (backedOut \<lparr>price = 1200, percentage = 20\<rparr>) \<and>
   (200 :: uint64)
     = word_of_int (percentShare (backedOut \<lparr>price = 1200, percentage = 20\<rparr>) 20)"
proof -
  let ?item = "Item 1200 ''book'' 0 [] 1"
  have ta: "taxAmounts (Some inclusive20) ''DE'' ?item = Inr [\<lparr>price = 1200, percentage = 20\<rparr>]"
    by code_simp
  have inc: "includeTaxes (Some inclusive20)"
    by (simp add: includeTaxes_def inclusive20_def)
  have ne: "[\<lparr>price = 1200, percentage = 20\<rparr>] \<noteq> []" by simp
  have "frac (of_int (uint (1200 :: uint64) * 100) / of_int (100 + uint (20 :: uint64)) :: rat)
      \<noteq> 1 / 2"
    by code_simp
  then have b: "\<forall>ta \<in> set [\<lparr>price = 1200, percentage = 20\<rparr>].
      uint (price ta) < 2 ^ 43 \<and> uint (percentage ta) < 2 ^ 10 \<and>
      frac (of_int (uint (price ta) * 100) / of_int (100 + uint (percentage ta)) :: rat)
        \<noteq> 1 / 2"
    by simp
  have ev: "priceItem (\<lambda>v. 0) (Some inclusive20) ''DE'' None ?item
      = Inr \<lparr>Quantity = 1, Subtotal = 1000, Discount = 0, Taxes = 200, Total = 1200\<rparr>"
    by code_simp
  from inclusive_taxes [OF ta inc ne b, of "\<lambda>v. 0" None] ev show ?thesis by auto
qed

text \<open>
  The claim as the specification has it fails at a quotient halfway between two integers:
  69 with 20 per cent included is 57.5 without, which rounds to 58; in float64,
  \<open>69 / 120 * 100\<close> is 57.49999999999999 and the subtotal is 57.
\<close>

theorem inclusive_taxes_counterexample:
  "priceItem (\<lambda>v. 0) (Some inclusive20) ''DE'' None (Item 69 ''book'' 0 [] 1)
     = Inr \<lparr>Quantity = 1, Subtotal = 57, Discount = 0, Taxes = 11, Total = 68\<rparr> \<and>
   backedOut \<lparr>price = 69, percentage = 20\<rparr> = 58 \<and>
   fmul (fdiv (float64 69) (fadd 100 (float64 20))) 100 = 8092405580431359 / 140737488355328"
  by code_simp

text \<open>
  Claim C3, as amended. With prices that do not include taxes, the subtotal of an item stays
  its unit price, and its taxes are the sum over its tax amounts of
  \<open>round(basis * percentage / 100)\<close> on the original basis, rounded half to even,
  provided that \<open>basis * percentage < 2^53\<close> for each of them: then the product is exact
  in float64. The sum is that of \<open>uint64\<close>.
\<close>

theorem exclusive_taxes:
  assumes "taxAmounts settings country item = Inr amounts"
    and "\<not> includeTaxes settings"
    and "\<forall>ta \<in> set amounts. uint (price ta) * uint (percentage ta) < 2 ^ 53"
  shows "\<exists>ip. priceItem oor settings country coupon item = Inr ip \<and>
      ItemPrice.Subtotal ip = PriceInLowestUnit item \<and>
      ItemPrice.Taxes ip
        = (\<Sum>ta\<leftarrow>amounts.
             word_of_int (percentShare (uint (price ta)) (uint (percentage ta))))"
proof -
  have "map (\<lambda>ta. percentOf oor (price ta) (percentage ta)) amounts
      = map (\<lambda>ta. word_of_int (percentShare (uint (price ta)) (uint (percentage ta)))) amounts"
    using assms(3) by (simp add: percentOf_exact percentShare_def)
  with priceItem_exclusive [OF assms(1,2), of oor coupon] show ?thesis by simp
qed

theorem exclusive_taxes_witness:
  "priceItem (\<lambda>v. 0) (Some exclusive20) ''DE'' None (Item 1000 ''book'' 0 [] 1)
     = Inr \<lparr>Quantity = 1, Subtotal = 1000, Discount = 0, Taxes = 200, Total = 1200\<rparr> \<and>
   (200 :: uint64) = word_of_int (percentShare 1000 20)"
proof -
  let ?item = "Item 1000 ''book'' 0 [] 1"
  have ta: "taxAmounts (Some exclusive20) ''DE'' ?item = Inr [\<lparr>price = 1000, percentage = 20\<rparr>]"
    by code_simp
  have ex: "\<not> includeTaxes (Some exclusive20)"
    by (simp add: includeTaxes_def exclusive20_def)
  have b: "\<forall>ta \<in> set [\<lparr>price = 1000, percentage = 20\<rparr>].
      uint (price ta) * uint (percentage ta) < 2 ^ 53"
    by simp
  have ev: "priceItem (\<lambda>v. 0) (Some exclusive20) ''DE'' None ?item
      = Inr \<lparr>Quantity = 1, Subtotal = 1000, Discount = 0, Taxes = 200, Total = 1200\<rparr>"
    by code_simp
  from exclusive_taxes [OF ta ex b, of "\<lambda>v. 0" None] ev show ?thesis by auto
qed

text \<open>
  The claim as the specification has it fails where the product is not exact: an item of
  \<open>2^53 + 1\<close> at 20 per cent gets the taxes 1801439850948198, and the exact amount
  rounds to 1801439850948199.
\<close>

theorem exclusive_taxes_counterexample:
  "priceItem (\<lambda>v. 0) (Some exclusive20) ''DE'' None (Item 9007199254740993 ''book'' 0 [] 1)
     = Inr \<lparr>Quantity = 1, Subtotal = 9007199254740993, Discount = 0,
            Taxes = 1801439850948198, Total = 10808639105689191\<rparr> \<and>
   percentShare 9007199254740993 20 = 1801439850948199"
  by code_simp

text \<open>
  Claim C4, as amended. With the settings absent no rule is looked up and prices never
  include taxes: an item's subtotal is its unit price, and its taxes are 0 when its fixed
  VAT is 0, also when it has taxable sub-items. An item with a fixed VAT other than 0 is
  taxed all the same, at that percentage of its unit price: the fixed VAT is tested before
  the settings are.
\<close>

theorem absent_settings:
  "\<exists>p. CalculatePrice oor None country currency coupon items = Inr p \<and>
     length (Items p) = length items \<and>
     (\<forall>i < length items.
        ItemPrice.Subtotal (Items p ! i) = PriceInLowestUnit (items ! i) \<and>
        ItemPrice.Taxes (Items p ! i) =
          (if FixedVAT (items ! i) = 0 then 0
           else percentOf oor (PriceInLowestUnit (items ! i)) (FixedVAT (items ! i))))"
proof -
  have "rulesPresent None" by (simp add: rulesPresent_def)
  then obtain p where p: "CalculatePrice oor None country currency coupon items = Inr p"
    using CalculatePrice_returns by blast
  note m = CalculatePrice_result(1) [OF p]
  then have len: "length (Items p) = length items" by (metis length_map)
  have "ItemPrice.Subtotal (Items p ! i) = PriceInLowestUnit (items ! i) \<and>
        ItemPrice.Taxes (Items p ! i) =
          (if FixedVAT (items ! i) = 0 then 0
           else percentOf oor (PriceInLowestUnit (items ! i)) (FixedVAT (items ! i)))"
    if "i < length items" for i
  proof -
    from m have "map Inr (Items p) ! i = map (priceItem oor None country coupon) items ! i"
      by simp
    with that len have "priceItem oor None country coupon (items ! i) = Inr (Items p ! i)"
      by simp
    then show ?thesis by (rule priceItem_absent_settings)
  qed
  with p len show ?thesis by blast
qed

theorem absent_settings_witness:
  "CalculatePrice (\<lambda>v. 0) None ''DE'' ''EUR'' None [bookBundle, Item 1000 ''book'' 20 [] 1]
     = Inr \<lparr>Items = [\<lparr>Quantity = 1, Subtotal = 100, Discount = 0, Taxes = 0, Total = 100\<rparr>,
                     \<lparr>Quantity = 1, Subtotal = 1000, Discount = 0, Taxes = 200, Total = 1200\<rparr>],
            Subtotal = 1100, Discount = 0, Taxes = 200, Total = 1300\<rparr> \<and>
   percentOf (\<lambda>v. 0) 1000 20 = 200"
proof -
  let ?items = "[bookBundle, Item 1000 ''book'' 20 [] 1]"
  from absent_settings [of "\<lambda>v. 0" "''DE''" "''EUR''" None ?items]
  obtain p where p: "CalculatePrice (\<lambda>v. 0) None ''DE'' ''EUR'' None ?items = Inr p"
    and t: "\<forall>i < length ?items.
        ItemPrice.Subtotal (Items p ! i) = PriceInLowestUnit (?items ! i) \<and>
        ItemPrice.Taxes (Items p ! i) =
          (if FixedVAT (?items ! i) = 0 then 0
           else percentOf (\<lambda>v. 0) (PriceInLowestUnit (?items ! i)) (FixedVAT (?items ! i)))"
    by blast
  from p have pe: "p = \<lparr>Items = [\<lparr>Quantity = 1, Subtotal = 100, Discount = 0, Taxes = 0, Total = 100\<rparr>,
                     \<lparr>Quantity = 1, Subtotal = 1000, Discount = 0, Taxes = 200, Total = 1200\<rparr>],
            Subtotal = 1100, Discount = 0, Taxes = 200, Total = 1300\<rparr>"
    by (simp add: example_absent_settings)
  from t have "ItemPrice.Taxes (Items p ! 1) = percentOf (\<lambda>v. 0) 1000 20" by simp
  then have "percentOf (\<lambda>v. 0) 1000 20 = 200" by (simp add: pe)
  then show ?thesis using example_absent_settings by simp
qed

text \<open>
  The claim as the specification has it fails: without settings, an item of 1000 with a
  fixed VAT of 20 has taxes 200, not 0.
\<close>

theorem absent_settings_counterexample:
  "CalculatePrice (\<lambda>v. 0) None ''DE'' ''EUR'' None [Item 1000 ''book'' 20 [] 1]
     = Inr \<lparr>Items = [\<lparr>Quantity = 1, Subtotal = 1000, Discount = 0, Taxes = 200, Total = 1200\<rparr>],
            Subtotal = 1000, Discount = 0, Taxes = 200, Total = 1200\<rparr>"
  by code_simp

text \<open>
  Claim C5. \<open>AppliesTo\<close> holds exactly if the rule's product types are empty or contain
  the product type and its countries are empty or contain the country. The rules are tried
  in their order and the first one that applies is taken: it is the \<open>find\<close> of the
  list; a rule is the result exactly if it applies and none before it does, and there is
  no result exactly if no rule applies. An item without fixed VAT and sub-items gets one
  tax amount, with the percentage of that one rule, or none at all.
\<close>

theorem first_matching_rule:
  "(AppliesTo t country productType \<longleftrightarrow> ruleMatches t country productType) \<and>
   firstApplicable (map Some rules) country productType
     = Inr (find (\<lambda>t. ruleMatches t country productType) rules) \<and>
   (firstApplicable ts country productType = Inr (Some t) \<longleftrightarrow>
      (\<exists>before after. ts = map Some before @ Some t # after \<and>
         ruleMatches t country productType \<and>
         (\<forall>u \<in> set before. \<not> ruleMatches u country productType))) \<and>
   (firstApplicable ts country productType = Inr None \<longleftrightarrow>
      (\<exists>rules. ts = map Some rules \<and> (\<forall>u \<in> set rules. \<not> ruleMatches u country productType))) \<and>
   (FixedVAT item = 0 \<and> TaxableItems item = [] \<longrightarrow>
      taxAmounts (Some \<lparr>PricesIncludeTaxes = inc, Taxes = map Some rules\<rparr>) country item
        = Inr (case find (\<lambda>t. ruleMatches t country (ProductType item)) rules of
                 None \<Rightarrow> []
               | Some t \<Rightarrow> [\<lparr>price = PriceInLowestUnit item, percentage = Percentage t\<rparr>]))"
proof (intro conjI impI)
  show "AppliesTo t country productType \<longleftrightarrow> ruleMatches t country productType"
    by (rule AppliesTo_iff)
  show "firstApplicable (map Some rules) country productType
     = Inr (find (\<lambda>t. ruleMatches t country productType) rules)"
    by (rule firstApplicable_find)
  show "firstApplicable ts country productType = Inr (Some t) \<longleftrightarrow>
      (\<exists>before after. ts = map Some before @ Some t # after \<and>
         ruleMatches t country productType \<and>
         (\<forall>u \<in> set before. \<not> ruleMatches u country productType))"
    by (rule firstApplicable_Some_iff)
  show "firstApplicable ts country productType = Inr None \<longleftrightarrow>
      (\<exists>rules. ts = map Some rules \<and> (\<forall>u \<in> set rules. \<not> ruleMatches u country productType))"
    by (rule firstApplicable_None_iff)
next
  assume a: "FixedVAT item = 0 \<and> TaxableItems item = []"
  let ?s = "\<lparr>PricesIncludeTaxes = inc, Taxes = map Some rules\<rparr>"
  have "firstApplicable (Settings.Taxes ?s) country (ProductType item)
      = Inr (find (\<lambda>t. ruleMatches t country (ProductType item)) rules)"
    by (simp add: firstApplicable_find)
  with a show "taxAmounts (Some ?s) country item
        = Inr (case find (\<lambda>t. ruleMatches t country (ProductType item)) rules of
                 None \<Rightarrow> []
               | Some t \<Rightarrow> [\<lparr>price = PriceInLowestUnit item, percentage = Percentage t\<rparr>])"
    by (simp add: taxAmounts_simple)
qed

theorem first_matching_rule_witness:
  "AppliesTo ruleBooksDE ''DE'' ''book'' \<and>
   firstApplicable (map Some [ruleBooksDE, ruleAny19, ruleBooks5]) ''DE'' ''book''
     = Inr (Some ruleBooksDE) \<and>
   firstApplicable (map Some [ruleBooksDE, ruleAny19, ruleBooks5]) ''FR'' ''book''
     = Inr (Some ruleAny19) \<and>
   firstApplicable (map Some [ruleBooksDE, ruleBooks5]) ''FR'' ''ebook'' = Inr None \<and>
   taxAmounts (Some \<lparr>PricesIncludeTaxes = False,
                      Taxes = map Some [ruleBooksDE, ruleAny19, ruleBooks5]\<rparr>)
       ''DE'' (Item 1000 ''book'' 0 [] 1)
     = Inr [\<lparr>price = 1000, percentage = 7\<rparr>]"
  using first_matching_rule [of ruleBooksDE "''DE''" "''book''" "[ruleBooksDE, ruleAny19, ruleBooks5]"
      "map Some [ruleBooksDE, ruleAny19, ruleBooks5]" "Item 1000 ''book'' 0 [] 1" False]
    first_matching_rule [of ruleAny19 "''FR''" "''book''" "[ruleBooksDE, ruleAny19, ruleBooks5]"
      "[]" "Item 1000 ''book'' 0 [] 1" False]
    first_matching_rule [of ruleAny19 "''FR''" "''ebook''" "[ruleBooksDE, ruleBooks5]"
      "[]" "Item 1000 ''ebook'' 0 [] 1" False]
  by (simp add: ruleMatches_def ruleBooksDE_def ruleAny19_def ruleBooks5_def)

text \<open>
  Claim C6, as amended. The discount of an item is 0 without a coupon, and with a coupon
  that is not valid for the item's product type. With a valid coupon it is
  \<open>round(base * percentageDiscount / 100)\<close>, rounded half to even, of the subtotal alone
  when prices do not include taxes and of subtotal plus taxes when they do, provided that
  \<open>base * percentageDiscount < 2^53\<close>: then the product is exact in float64. The coupon's
  fixed discount and its price check are never consulted: changing them changes nothing.
\<close>

theorem coupon_discount:
  assumes "priceItem oor settings country coupon item = Inr ip"
  shows "(\<forall>c. coupon = Some c \<and> ValidForType c (ProductType item) \<and>
            uint (discountBase settings ip) * uint (PercentageDiscount c) < 2 ^ 53 \<longrightarrow>
          ItemPrice.Discount ip
            = word_of_int (percentShare (uint (discountBase settings ip))
                (uint (PercentageDiscount c)))) \<and>
     (coupon = None \<or> (\<exists>c. coupon = Some c \<and> \<not> ValidForType c (ProductType item)) \<longrightarrow>
        ItemPrice.Discount ip = 0) \<and>
     (\<forall>c f g. coupon = Some c \<longrightarrow>
        priceItem oor settings country (Some (c\<lparr>ValidForPrice := g, FixedDiscount := f\<rparr>)) item
          = Inr ip)"
proof (intro conjI allI impI)
  fix c
  assume c: "coupon = Some c \<and> ValidForType c (ProductType item) \<and>
      uint (discountBase settings ip) * uint (PercentageDiscount c) < 2 ^ 53"
  with priceItem_Discount [OF assms]
  have "ItemPrice.Discount ip = percentOf oor (discountBase settings ip) (PercentageDiscount c)"
    by simp
  also from c have "\<dots> = word_of_int (spec_round (of_int (uint (discountBase settings ip)
      * uint (PercentageDiscount c)) / 100))"
    by (intro percentOf_exact) simp
  finally show "ItemPrice.Discount ip
      = word_of_int (percentShare (uint (discountBase settings ip)) (uint (PercentageDiscount c)))"
    by (simp only: percentShare_def)
next
  assume "coupon = None \<or> (\<exists>c. coupon = Some c \<and> \<not> ValidForType c (ProductType item))"
  with priceItem_Discount [OF assms] show "ItemPrice.Discount ip = 0" by auto
next
  fix c f g
  assume "coupon = Some c"
  with assms show "priceItem oor settings country
      (Some (c\<lparr>ValidForPrice := g, FixedDiscount := f\<rparr>)) item = Inr ip"
    by (simp only: priceItem_ignores_FixedDiscount)
qed

theorem coupon_discount_witness:
  "priceItem (\<lambda>v. 0) (Some exclusive20) ''DE'' (Some coupon10) (Item 1000 ''book'' 0 [] 1)
     = Inr \<lparr>Quantity = 1, Subtotal = 1000, Discount = 100, Taxes = 200, Total = 1100\<rparr> \<and>
   (100 :: uint64) = word_of_int (percentShare 1000 10) \<and>
   priceItem (\<lambda>v. 0) (Some exclusive20) ''DE''
       (Some (coupon10\<lparr>ValidForPrice := (\<lambda>c a. False), FixedDiscount := 500\<rparr>))
       (Item 1000 ''book'' 0 [] 1)
     = Inr \<lparr>Quantity = 1, Subtotal = 1000, Discount = 100, Taxes = 200, Total = 1100\<rparr>"
proof -
  let ?ip = "\<lparr>Quantity = 1, Subtotal = 1000, Discount = 100, Taxes = 200, Total = 1100\<rparr>"
  have ev: "priceItem (\<lambda>v. 0) (Some exclusive20) ''DE'' (Some coupon10) (Item 1000 ''book'' 0 [] 1)
      = Inr ?ip"
    by code_simp
  have v: "ValidForType coupon10 (ProductType (Item 1000 ''book'' 0 [] 1))"
    and p: "PercentageDiscount coupon10 = 10"
    by (simp_all add: coupon10_def)
  have d: "discountBase (Some exclusive20) ?ip = 1000"
    by (simp add: discountBase_def includeTaxes_def exclusive20_def)
  note t = coupon_discount [OF ev]
  from t have "ItemPrice.Discount ?ip = word_of_int (percentShare 1000 10)"
    using v by (simp add: d p)
  moreover from t have "priceItem (\<lambda>v. 0) (Some exclusive20) ''DE''
       (Some (coupon10\<lparr>ValidForPrice := (\<lambda>c a. False), FixedDiscount := 500\<rparr>))
       (Item 1000 ''book'' 0 [] 1) = Inr ?ip"
    by blast
  ultimately show ?thesis using ev by simp
qed

text \<open>
  The claim as the specification has it fails where the product is not exact: with a coupon
  of 20 per cent and no taxes, an item of \<open>2^53 + 1\<close> gets the discount 1801439850948198,
  and the exact amount rounds to 1801439850948199.
\<close>

theorem coupon_discount_counterexample:
  "priceItem (\<lambda>v. 0) None ''DE'' (Some coupon20) (Item 9007199254740993 ''book'' 0 [] 1)
     = Inr \<lparr>Quantity = 1, Subtotal = 9007199254740993, Discount = 1801439850948198,
            Taxes = 0, Total = 7205759403792795\<rparr> \<and>
   percentShare 9007199254740993 20 = 1801439850948199"
  by code_simp

text \<open>
  Claim C7. The items are priced in the order of the input, one item price for each; the
  subtotal, discount and taxes of the order are the sums of the unit amounts times the
  quantities; the total of the order is recomputed from these three, and equals the sum of
  the unit totals times the quantities.
\<close>

theorem aggregation:
  assumes "CalculatePrice oor settings country currency coupon items = Inr p"
  shows "map Inr (Items p) = map (priceItem oor settings country coupon) items \<and>
    map Quantity (Items p) = map GetQuantity items \<and>
    Price.Subtotal p = (\<Sum>ip\<leftarrow>Items p. ItemPrice.Subtotal ip * Quantity ip) \<and>
    Price.Discount p = (\<Sum>ip\<leftarrow>Items p. ItemPrice.Discount ip * Quantity ip) \<and>
    Price.Taxes p = (\<Sum>ip\<leftarrow>Items p. ItemPrice.Taxes ip * Quantity ip) \<and>
    Price.Total p = Price.Subtotal p - Price.Discount p + Price.Taxes p \<and>
    Price.Total p = (\<Sum>ip\<leftarrow>Items p. ItemPrice.Total ip * Quantity ip)"
proof -
  note r = CalculatePrice_result [OF assms]
  have each: "\<exists>item \<in> set items. priceItem oor settings country coupon item = Inr ip"
    if "ip \<in> set (Items p)" for ip
    using map_Inr_eq_member [OF r(1) that] .
  have tot: "\<forall>ip \<in> set (Items p).
      ItemPrice.Total ip = ItemPrice.Subtotal ip - ItemPrice.Discount ip + ItemPrice.Taxes ip"
    using each priceItem_Total by blast
  have len: "length (Items p) = length items"
    using r(1) by (metis length_map)
  have "Quantity (Items p ! i) = GetQuantity (items ! i)" if "i < length items" for i
  proof -
    from r(1) have "map Inr (Items p) ! i = map (priceItem oor settings country coupon) items ! i"
      by simp
    with that len have "priceItem oor settings country coupon (items ! i) = Inr (Items p ! i)"
      by simp
    then show ?thesis by (rule priceItem_Quantity)
  qed
  with len have q: "map Quantity (Items p) = map GetQuantity items"
    by (simp add: list_eq_iff_nth_eq)
  have "(\<Sum>ip\<leftarrow>Items p. ItemPrice.Total ip * Quantity ip) =
      (\<Sum>ip\<leftarrow>Items p. ItemPrice.Subtotal ip * Quantity ip)
      - (\<Sum>ip\<leftarrow>Items p. ItemPrice.Discount ip * Quantity ip)
      + (\<Sum>ip\<leftarrow>Items p. ItemPrice.Taxes ip * Quantity ip)"
    using tot by (rule weighted_totals)
  with r q show ?thesis by simp
qed

theorem aggregation_witness:
  "map Inr [\<lparr>Quantity = 3, Subtotal = 1000, Discount = 100, Taxes = 200, Total = 1100\<rparr>]
     = map (priceItem (\<lambda>v. 0) (Some exclusive20) ''DE'' (Some coupon10)) [Item 1000 ''book'' 0 [] 3] \<and>
   (3300 :: uint64) = (\<Sum>ip\<leftarrow>[\<lparr>Quantity = 3, Subtotal = 1000, Discount = 100, Taxes = 200,
                                Total = 1100\<rparr>]. ItemPrice.Total ip * Quantity ip)"
  using aggregation [OF example_coupon_quantity] by simp

text \<open>
  Claim C8, as amended. On every float64 \<open>x\<close> with \<open>0 \<le> x < 2^64\<close>, \<open>rint\<close> returns
  \<open>x\<close> rounded half to even: it rounds up exactly if the fraction is above one half, or
  is one half and the integral part is odd. (\<open>round_float64 x = x\<close> says that \<open>x\<close> is a
  float64.) Nothing is said about a negative \<open>x\<close>: there the result, and the parity test,
  go through the conversion of a negative float to \<open>uint64\<close>, which Go leaves to the
  implementation.
\<close>

theorem rint_half_even:
  assumes "round_float64 x = x" and "0 \<le> x" and "x < 2 ^ 64"
  shows "uint (rint oor x) = spec_round x \<and>
    spec_round x =
      (if 1 / 2 < frac x \<or> (frac x = 1 / 2 \<and> odd \<lfloor>x\<rfloor>) then \<lfloor>x\<rfloor> + 1 else \<lfloor>x\<rfloor>)"
proof
  show "uint (rint oor x) = spec_round x"
  proof (cases "x < 2 ^ 52")
    case True
    have r: "rint oor x = word_of_int (nearest_even x)"
      using assms(2) True by (rule rint_nearest_even)
    have "of_int (nearest_even x) \<le> x + 1 / 2" using nearest_even_bounds [of x] by linarith
    also have "\<dots> < 2 ^ 64" using True by simp
    finally have "(of_int (nearest_even x) :: rat) < of_int (2 ^ 64)" by simp
    then have "nearest_even x < 2 ^ 64" by (simp only: of_int_less_iff)
    with nearest_even_nonneg [OF assms(2)] have "uint (rint oor x) = nearest_even x"
      by (simp add: r uint_word_of_int_small)
    then show ?thesis using assms(2) by (simp add: spec_round_nonneg)
  next
    case False
    then have "2 ^ 52 \<le> x" by simp
    from float_integral [OF assms(1) this] obtain n where n: "x = of_int n" ..
    with assms(2) have n0: "0 \<le> n" by simp
    from assms(3) n have "(of_int n :: rat) < of_int (2 ^ 64)" by simp
    then have n64: "n < 2 ^ 64" by (simp only: of_int_less_iff)
    have "rint oor x = uint64_of_float oor (of_int n)"
      using n0 by (simp add: rint_def Modf_def n)
    also have "\<dots> = word_of_int n" using n0 n64 by (rule uint64_of_float_int)
    finally have "uint (rint oor x) = n" using n0 n64 by (simp add: uint_word_of_int_small)
    moreover have "spec_round x = n" using n0 by (simp add: n spec_round_nonneg)
    ultimately show ?thesis by simp
  qed
  show "spec_round x =
      (if 1 / 2 < frac x \<or> (frac x = 1 / 2 \<and> odd \<lfloor>x\<rfloor>) then \<lfloor>x\<rfloor> + 1 else \<lfloor>x\<rfloor>)"
    using assms(2) by (auto simp: spec_round_def Let_def frac_def)
qed

theorem rint_half_even_witness:
  "uint (rint (\<lambda>v. 0) (5 / 2)) = 2 \<and> uint (rint (\<lambda>v. 0) (7 / 2)) = 4"
proof -
  have f: "round_float64 (5 / 2) = 5 / 2" "round_float64 (7 / 2) = 7 / 2" by code_simp+
  have s: "spec_round (5 / 2) = 2" "spec_round (7 / 2) = 4" by code_simp+
  have b: "(0::rat) \<le> 5 / 2" "(5 / 2 :: rat) < 2 ^ 64" "(0::rat) \<le> 7 / 2" "(7 / 2 :: rat) < 2 ^ 64"
    by simp_all
  from rint_half_even [OF f(1) b(1) b(2), of "\<lambda>v. 0"]
    rint_half_even [OF f(2) b(3) b(4), of "\<lambda>v. 0"] s
  show ?thesis by simp
qed

text \<open>
  The claim as the specification has it fails on a negative number: where the conversion of
  a negative float gives 0 (as a saturating conversion does), \<open>rint (-1.5)\<close> is 0,
  not \<open>-2\<close>, and not \<open>-2\<close> modulo \<open>2^64\<close> either.
\<close>

theorem rint_half_even_counterexample:
  "rint (\<lambda>v. 0) (- 3 / 2) = 0 \<and> spec_round (- 3 / 2) = - 2 \<and>
   (word_of_int (- 2) :: uint64) = 18446744073709551614"
  by code_simp

text \<open>
  Claim C9. With settings present (and no nil rule among them), an item without fixed VAT
  that has taxable sub-items gets one tax amount for each sub-item: the sub-item's price and
  the percentage of the first rule matching the sub-item's product type, 0 if there is none.
  The item's own price is in no tax amount. The taxes are the sum of the sub-items' taxes,
  each rounded by itself; with prices that include taxes the subtotal is the sum of the
  sub-items' prices without tax. In the instance, 50 at 7 per cent and 50 at 19 per cent
  give \<open>4 + 10 = 14\<close>, where the two exact taxes together, 13, would need no rounding.
\<close>

theorem sub_items_taxed_each:
  assumes "FixedVAT item = 0" and "TaxableItems item \<noteq> []"
    and "Settings.Taxes s = map Some rules"
  shows "taxAmounts (Some s) country item
           = Inr (map (subItemAmount rules country) (TaxableItems item)) \<and>
    (\<exists>ip. priceItem oor (Some s) country coupon item = Inr ip \<and>
       (\<not> PricesIncludeTaxes s \<longrightarrow>
          ItemPrice.Subtotal ip = PriceInLowestUnit item \<and>
          ItemPrice.Taxes ip =
            (\<Sum>sub\<leftarrow>TaxableItems item.
               percentOf oor (PriceInLowestUnit sub) (subItemRate rules country sub))) \<and>
       (PricesIncludeTaxes s \<longrightarrow>
          ItemPrice.Subtotal ip =
            (\<Sum>sub\<leftarrow>TaxableItems item.
               exclusivePrice oor (PriceInLowestUnit sub) (subItemRate rules country sub)) \<and>
          ItemPrice.Taxes ip =
            (\<Sum>sub\<leftarrow>TaxableItems item.
               percentOf oor
                 (exclusivePrice oor (PriceInLowestUnit sub) (subItemRate rules country sub))
                 (subItemRate rules country sub))))"
proof -
  have ta: "taxAmounts (Some s) country item
      = Inr (map (subItemAmount rules country) (TaxableItems item))"
    using assms by (simp add: taxAmounts_def subItemAmounts_map)
  have ne: "map (subItemAmount rules country) (TaxableItems item) \<noteq> []"
    using assms(2) by simp
  show ?thesis
  proof (cases "PricesIncludeTaxes s")
    case True
    with ta ne show ?thesis
      by (cases coupon)
         (simp_all add: priceItem_def includeTaxes_def Let_def applyTaxes_inclusive
            subItemAmount_def comp_def)
  next
    case False
    with ta ne show ?thesis
      by (cases coupon)
         (simp_all add: priceItem_def includeTaxes_def Let_def applyTaxes_exclusive
            subItemAmount_def comp_def)
  qed
qed

theorem sub_items_taxed_each_witness:
  "taxAmounts (Some \<lparr>PricesIncludeTaxes = False, Taxes = map Some [ruleBooksDE, ruleEbooks19]\<rparr>)
       ''DE'' bookBundle
     = Inr [\<lparr>price = 50, percentage = 7\<rparr>, \<lparr>price = 50, percentage = 19\<rparr>] \<and>
   priceItem (\<lambda>v. 0)
       (Some \<lparr>PricesIncludeTaxes = False, Taxes = map Some [ruleBooksDE, ruleEbooks19]\<rparr>)
       ''DE'' None bookBundle
     = Inr \<lparr>Quantity = 1, Subtotal = 100, Discount = 0, Taxes = 14, Total = 114\<rparr> \<and>
   percentOf (\<lambda>v. 0) 50 7 + percentOf (\<lambda>v. 0) 50 19 = 14 \<and>
   spec_round (of_int (50 * 7 + 50 * 19) / 100) = 13"
proof -
  let ?s = "\<lparr>PricesIncludeTaxes = False, Taxes = map Some [ruleBooksDE, ruleEbooks19]\<rparr>"
  have 1: "FixedVAT bookBundle = 0" and 2: "TaxableItems bookBundle \<noteq> []"
    and 3: "Settings.Taxes ?s = map Some [ruleBooksDE, ruleEbooks19]"
    by (simp_all add: bookBundle_def)
  have ev: "priceItem (\<lambda>v. 0) (Some ?s) ''DE'' None bookBundle
      = Inr \<lparr>Quantity = 1, Subtotal = 100, Discount = 0, Taxes = 14, Total = 114\<rparr>"
    by code_simp
  have r: "subItemRate [ruleBooksDE, ruleEbooks19] ''DE'' (Item 50 ''book'' 0 [] 1) = 7"
    "subItemRate [ruleBooksDE, ruleEbooks19] ''DE'' (Item 50 ''ebook'' 0 [] 1) = 19"
    by (simp_all add: subItemRate_def ruleMatches_def ruleBooksDE_def ruleEbooks19_def)
  have c: "spec_round (of_int (50 * 7 + 50 * 19) / 100) = 13" by code_simp
  from sub_items_taxed_each [OF 1 2 3, of "''DE''" "\<lambda>v. 0" None] ev r c
  show ?thesis by (simp add: bookBundle_def subItemAmount_def)
qed

text \<open>
  Claim C10. The amounts are \<open>uint64\<close> and nothing is checked: with a coupon of 300 per
  cent and no taxes, an item of 1000 gets the discount 3000, more than subtotal and taxes
  together, and its total \<open>1000 - 3000 + 0\<close> wraps around to \<open>2^64 - 2000\<close>.
\<close>

theorem discount_wraps_around:
  "CalculatePrice oor None ''DE'' ''EUR'' (Some coupon300) [Item 1000 ''book'' 0 [] 1]
     = Inr \<lparr>Items = [\<lparr>Quantity = 1, Subtotal = 1000, Discount = 3000, Taxes = 0,
                      Total = 18446744073709549616\<rparr>],
            Subtotal = 1000, Discount = 3000, Taxes = 0, Total = 18446744073709549616\<rparr> \<and>
   100 < uint (PercentageDiscount coupon300) \<and>
   uint (1000 :: uint64) + uint (0 :: uint64) < uint (3000 :: uint64) \<and>
   (18446744073709549616 :: uint64) = 1000 - 3000 + 0 \<and>
   uint (1000 :: uint64) + uint (0 :: uint64) < uint (18446744073709549616 :: uint64)"
proof -
  have "CalculatePrice oor None ''DE'' ''EUR'' (Some coupon300) [Item 1000 ''book'' 0 [] 1]
     = Inr \<lparr>Items = [\<lparr>Quantity = 1, Subtotal = 1000, Discount = 3000, Taxes = 0,
                      Total = 18446744073709549616\<rparr>],
            Subtotal = 1000, Discount = 3000, Taxes = 0, Total = 18446744073709549616\<rparr>"
    by code_simp
  moreover have "100 < uint (PercentageDiscount coupon300)"
    by (simp add: coupon300_def)
  ultimately show ?thesis by simp
qed

end
